theory Spec2Isabelle
  imports Main "HOL-Library.AList"
begin

section \<open>Strings as the program uses them\<close>

text \<open>
  A JavaScript string is modelled as a \<^typ>\<open>string\<close>: the list of its code units, for
  the code units below 256. The line feed is code unit 10.
\<close>

definition newline :: char where
  "newline = CHR 0x0A"

text \<open>
  \<^verbatim>\<open>String.prototype.trim\<close> strips white space and line terminators from both ends.
  Of the code units below 256 these are tab, line feed, vertical tab, form feed, carriage
  return, space and the no-break space.
\<close>

definition isWhiteSpace :: "char \<Rightarrow> bool" where
  "isWhiteSpace c \<longleftrightarrow>
     c = CHR 0x09 \<or> c = CHR 0x0A \<or> c = CHR 0x0B \<or> c = CHR 0x0C \<or> c = CHR 0x0D \<or>
     c = CHR 0x20 \<or> c = CHR 0xA0"

definition trim :: "string \<Rightarrow> string" where
  "trim s = rev (dropWhile isWhiteSpace (rev (dropWhile isWhiteSpace s)))"

text \<open>\<^verbatim>\<open>s.split('\n')\<close>: the pieces between line feeds; the empty string gives one empty piece.\<close>

fun split_lines :: "string \<Rightarrow> string list" where
  "split_lines [] = [[]]"
| "split_lines (c # cs) =
     (if c = newline then [] # split_lines cs
      else (case split_lines cs of
              [] \<Rightarrow> [[c]]
            | l # ls \<Rightarrow> (c # l) # ls))"

text \<open>\<^verbatim>\<open>s.startsWith(sub)\<close> and \<^verbatim>\<open>s.includes(sub)\<close>.\<close>

fun startsWith :: "string \<Rightarrow> string \<Rightarrow> bool" where
  "startsWith s [] = True"
| "startsWith [] (d # ds) = False"
| "startsWith (c # cs) (d # ds) = (c = d \<and> startsWith cs ds)"

fun includes_str :: "string \<Rightarrow> string \<Rightarrow> bool" where
  "includes_str [] sub = (sub = [])"
| "includes_str (c # cs) sub = (startsWith (c # cs) sub \<or> includes_str cs sub)"

text \<open>A number in a template literal: its decimal digits.\<close>

definition digit :: "nat \<Rightarrow> char" where
  "digit d = char_of (48 + d)"

fun decimal :: "nat \<Rightarrow> string" where
  "decimal n = (if n < 10 then [digit n] else decimal (n div 10) @ [digit (n mod 10)])"

declare decimal.simps [simp del]

section \<open>The message queue (\<^verbatim>\<open>app.post('/send')\<close>, lines 85 to 88)\<close>

text \<open>
  \<^verbatim>\<open>
  const messages = smsFile.toString('utf8')
      .split('\n')
      .map(line => `${hatersName} ${line.trim()}`)
      .filter(line => line);
  \<close>
  The filter keeps the strings that are truthy, that is, not empty. It runs on the
  prefixed lines. The payload is the decoded text, the value of
  \<^verbatim>\<open>smsFile.toString('utf8')\<close>.
\<close>

definition prefixed :: "string \<Rightarrow> string \<Rightarrow> string" where
  "prefixed hatersName line = hatersName @ '' '' @ trim line"

definition build_messages :: "string \<Rightarrow> string \<Rightarrow> string list" where
  "build_messages hatersName payload =
     filter (\<lambda>line. line \<noteq> []) (map (prefixed hatersName) (split_lines payload))"

section \<open>The server's state\<close>

text \<open>A session: the object stored in \<^verbatim>\<open>activeSessions\<close>. Dates are milliseconds.\<close>

record session =
  running :: bool
  targetNumber :: string
  targetType :: string
  startTime :: int
  sentCount :: nat
  failedCount :: nat
  lastActivity :: int

text \<open>
  A WebSocket client of \<^verbatim>\<open>wss.clients\<close>: its ready state, the \<^verbatim>\<open>sessionKey\<close> property
  the subscribe handler sets on it (undefined before), and the frames handed to its
  \<^verbatim>\<open>send\<close>, oldest first.
\<close>

datatype ready_state = CONNECTING | OPEN | CLOSING | CLOSED

datatype frame =
    LogsFrame "string list"   \<comment> \<open>\<^verbatim>\<open>{type: 'logs', data: [...]}\<close>\<close>
  | LogFrame string           \<comment> \<open>\<^verbatim>\<open>{type: 'log', data: message}\<close>\<close>

record client =
  readyState :: ready_state
  sessionKey :: "string option"
  frames :: "frame list"

text \<open>
  One call of \<^verbatim>\<open>sendMessages\<close>: its parameters, the socket \<^verbatim>\<open>sock\<close> once
  \<^verbatim>\<open>makeWASocket\<close> has returned, the closure variable \<^verbatim>\<open>reconnectAttempts\<close>, the number
  of pending \<^verbatim>\<open>setTimeout(reconnect, 10000)\<close> timers and the number of \<^verbatim>\<open>reconnect\<close>
  calls that wait at their \<^verbatim>\<open>await\<close>.
\<close>

datatype phase = Initialising | Ready nat | Dead

record engine =
  e_key :: string
  e_messages :: "string list"
  e_targetNumber :: string
  e_targetType :: string
  e_phase :: phase
  reconnectAttempts :: nat
  timers :: nat
  reconnecting :: nat

text \<open>
  One run of the \<^verbatim>\<open>connection === 'open'\<close> branch that waits at an \<^verbatim>\<open>await\<close>: at
  \<^verbatim>\<open>socket.sendMessage\<close> for a message (with the messages still to come), or at a
  \<^verbatim>\<open>delay\<close> (with whether the loop breaks after it). A run that has ended is \<open>Done\<close>.
\<close>

datatype pc =
    Sending string "string list"
  | Delaying bool "string list"
  | Done

record task =
  t_key :: string
  t_targetNumber :: string
  t_targetType :: string
  t_pc :: pc

text \<open>
  The three maps of the module, the WebSocket clients, the clock (\<^verbatim>\<open>new Date()\<close> and
  its \<^verbatim>\<open>toLocaleTimeString()\<close>), the calls of \<^verbatim>\<open>sendMessages\<close> and the runs of the
  delivery loop, and what the program has asked of its collaborators: the
  \<^verbatim>\<open>sendMessage\<close> calls (session key, recipient, text), the sockets it called \<^verbatim>\<open>end\<close>
  on, and the session directories it passed to \<^verbatim>\<open>fs.rm\<close>.

  \<^verbatim>\<open>activeSessions\<close> is iterated by the sweep, so it is an association list in insertion
  order; the other two maps are only read and written by key.
\<close>

record server =
  activeSessions :: "(string \<times> session) list"
  sessionLogs :: "string \<rightharpoonup> string list"
  sessionConnections :: "string \<rightharpoonup> nat"
  clients :: "nat \<rightharpoonup> client"
  now :: int
  localeTime :: string
  engines :: "engine list"
  tasks :: "task list"
  sendCalls :: "(string \<times> string \<times> string) list"
  ended :: "nat list"
  rmCalls :: "string list"

definition getSession :: "server \<Rightarrow> string \<Rightarrow> session option" where
  "getSession w k = map_of (activeSessions w) k"

definition setSession :: "string \<Rightarrow> session \<Rightarrow> server \<Rightarrow> server" where
  "setSession k s w = w\<lparr>activeSessions := AList.update k s (activeSessions w)\<rparr>"

text \<open>\<^verbatim>\<open>activeSessions.get(sessionKey)?.running\<close>\<close>

definition isRunning :: "server \<Rightarrow> string \<Rightarrow> bool" where
  "isRunning w k = (case getSession w k of None \<Rightarrow> False | Some s \<Rightarrow> running s)"

section \<open>The log channel (\<^verbatim>\<open>broadcastLogs\<close>, lines 52 to 69)\<close>

definition logLine :: "string \<Rightarrow> string \<Rightarrow> string" where
  "logLine timestamp message = ''['' @ timestamp @ ''] '' @ message"

text \<open>\<^verbatim>\<open>logs.push(line); if (logs.length > 500) logs.shift();\<close>\<close>

definition pushLog :: "string \<Rightarrow> string list \<Rightarrow> string list" where
  "pushLog line logs = (let logs' = logs @ [line] in if length logs' > 500 then tl logs' else logs')"

definition notify :: "string \<Rightarrow> string \<Rightarrow> client \<Rightarrow> client" where
  "notify k message c =
     (if readyState c = OPEN \<and> sessionKey c = Some k
      then c\<lparr>frames := frames c @ [LogFrame message]\<rparr> else c)"

definition broadcastLogs :: "string \<Rightarrow> string \<Rightarrow> server \<Rightarrow> server" where
  "broadcastLogs k message w =
     (let logs = (case sessionLogs w k of None \<Rightarrow> [] | Some l \<Rightarrow> l)
      in w\<lparr>sessionLogs := (sessionLogs w)(k \<mapsto> pushLog (logLine (localeTime w) message) logs),
            clients := (\<lambda>i. map_option (notify k message) (clients w i))\<rparr>)"

section \<open>The HTTP handlers\<close>

datatype http_error = NotFound404 | Error500

text \<open>
  The request of \<^verbatim>\<open>POST /send\<close>: the body fields and the uploaded file, absent when
  the request has none. The file is given by its text, the string that
  \<^verbatim>\<open>smsFile.toString('utf8')\<close> returns, not by its bytes: the decoding is left to the
  caller, and the text is one whose code units are below 256. \<^verbatim>\<open>timeDelay\<close> only sets
  how long the loop sleeps after a send, which the model leaves to the environment.
\<close>

record send_request =
  req_creds :: "string option"
  req_targetNumber :: string
  req_targetType :: string
  req_hatersName :: string
  req_file :: "string option"

text \<open>
  \<^verbatim>\<open>app.post('/send')\<close>, lines 72 to 117, for the session key that
  \<^verbatim>\<open>crypto.randomBytes(8).toString('hex')\<close> returned. A request with no file or no
  \<^verbatim>\<open>creds\<close> throws before the maps are touched and is answered with 500. Otherwise the
  session and its empty log buffer are stored and \<^verbatim>\<open>sendMessages\<close> is called: it runs
  to its first \<^verbatim>\<open>await\<close>.
\<close>

definition sendHandler :: "string \<Rightarrow> send_request \<Rightarrow> server \<Rightarrow> http_error + server" where
  "sendHandler key req w =
     (case req_file req of
        None \<Rightarrow> Inl Error500
      | Some smsFile \<Rightarrow>
          (case req_creds req of
             None \<Rightarrow> Inl Error500
           | Some creds \<Rightarrow>
               let messages = build_messages (req_hatersName req) smsFile;
                   w1 = setSession key
                          \<lparr>running = True,
                           targetNumber = req_targetNumber req,
                           targetType = req_targetType req,
                           startTime = now w,
                           sentCount = 0,
                           failedCount = 0,
                           lastActivity = now w\<rparr> w;
                   w2 = w1\<lparr>sessionLogs := (sessionLogs w1)(key \<mapsto> [])\<rparr>
               in Inr (w2\<lparr>engines := engines w2 @
                            [\<lparr>e_key = key,
                              e_messages = messages,
                              e_targetNumber = req_targetNumber req,
                              e_targetType = req_targetType req,
                              e_phase = Initialising,
                              reconnectAttempts = 0,
                              timers = 0,
                              reconnecting = 0\<rparr>]\<rparr>)))"

text \<open>\<^verbatim>\<open>sock.end(); sessionConnections.delete(sessionKey)\<close>, when the map has the key.\<close>

definition closeConnection :: "string \<Rightarrow> server \<Rightarrow> server" where
  "closeConnection k w =
     (case sessionConnections w k of
        None \<Rightarrow> w
      | Some sock \<Rightarrow> w\<lparr>ended := ended w @ [sock],
                        sessionConnections := (sessionConnections w)(k := None)\<rparr>)"

definition removeDir :: "string \<Rightarrow> server \<Rightarrow> server" where
  "removeDir k w = w\<lparr>rmCalls := rmCalls w @ [k]\<rparr>"

text \<open>
  \<^verbatim>\<open>app.post('/stop')\<close>, lines 119 to 161. The 500 answer of its \<^verbatim>\<open>catch\<close> needs
  \<^verbatim>\<open>sock.end()\<close> to throw, which the model leaves out.
\<close>

definition stopHandler :: "string \<Rightarrow> server \<Rightarrow> http_error + server" where
  "stopHandler key w =
     (case getSession w key of
        None \<Rightarrow> Inl NotFound404
      | Some session \<Rightarrow>
          Inr (broadcastLogs key ''[SYSTEM] Session stopped by user''
                (removeDir key
                  (closeConnection key
                    (setSession key (session\<lparr>running := False\<rparr>) w)))))"

text \<open>
  \<^verbatim>\<open>app.get('/status/:sessionKey')\<close>, lines 163 to 192: the answer carries the fields of
  the session.
\<close>

definition statusHandler :: "string \<Rightarrow> server \<Rightarrow> http_error + session" where
  "statusHandler key w =
     (case getSession w key of
        None \<Rightarrow> Inl NotFound404
      | Some session \<Rightarrow> Inr session)"

section \<open>The sweep (\<^verbatim>\<open>setInterval\<close>, lines 204 to 220)\<close>

text \<open>
  The body of the \<^verbatim>\<open>forEach\<close> callback for one entry, and the iteration over the
  entries of the map in their order.
\<close>

definition sweepEntry :: "string \<times> session \<Rightarrow> server \<Rightarrow> server" where
  "sweepEntry entry w =
     (let key = fst entry; session = snd entry in
      if running session then w
      else if now w - lastActivity session > 3600000
           then (removeDir key w)\<lparr>activeSessions := AList.delete key (activeSessions w),
                                  sessionLogs := (sessionLogs w)(key := None)\<rparr>
           else w)"

definition sweep :: "server \<Rightarrow> server" where
  "sweep w = fold sweepEntry (activeSessions w) w"

section \<open>The WebSocket handlers (lines 32 to 50)\<close>

text \<open>
  A message of a client: a subscription for a session key, or anything else (another
  \<^verbatim>\<open>type\<close>, or text that \<^verbatim>\<open>JSON.parse\<close> rejects, which the handler catches). A
  \<^verbatim>\<open>sessionKey\<close> that is not a string is in no map and behaves as an unknown key.
\<close>

datatype ws_message = Subscribe string | Unhandled

definition subscribe :: "nat \<Rightarrow> string \<Rightarrow> server \<Rightarrow> server" where
  "subscribe i key w =
     (case clients w i of
        None \<Rightarrow> w
      | Some ws \<Rightarrow>
          (case sessionLogs w key of
             None \<Rightarrow> w
           | Some logs \<Rightarrow>
               w\<lparr>clients := (clients w)(i \<mapsto> ws\<lparr>sessionKey := Some key,
                                                  frames := frames ws @ [LogsFrame logs]\<rparr>)\<rparr>))"

definition onMessage :: "nat \<Rightarrow> ws_message \<Rightarrow> server \<Rightarrow> server" where
  "onMessage i m w = (case m of Subscribe key \<Rightarrow> subscribe i key w | Unhandled \<Rightarrow> w)"

section \<open>The delivery engine (\<^verbatim>\<open>sendMessages\<close>, lines 222 to 375)\<close>

definition maxReconnectAttempts :: nat where
  "maxReconnectAttempts = 15"

definition putEngine :: "nat \<Rightarrow> engine \<Rightarrow> server \<Rightarrow> server" where
  "putEngine eid e w = w\<lparr>engines := (engines w)[eid := e]\<rparr>"

definition putTask :: "nat \<Rightarrow> pc \<Rightarrow> server \<Rightarrow> server" where
  "putTask i p w = w\<lparr>tasks := (tasks w)[i := (tasks w ! i)\<lparr>t_pc := p\<rparr>]\<rparr>"

definition stopRunning :: "string \<Rightarrow> server \<Rightarrow> server" where
  "stopRunning k w =
     (case getSession w k of
        None \<Rightarrow> w
      | Some session \<Rightarrow> setSession k (session\<lparr>running := False\<rparr>) w)"

text \<open>
  The end of \<^verbatim>\<open>sendMessages\<close>' first part: \<^verbatim>\<open>makeWASocket\<close> returned a socket, which is
  stored and gets the event handlers (lines 224 to 236 and 359).
\<close>

definition initOk :: "nat \<Rightarrow> nat \<Rightarrow> server \<Rightarrow> server" where
  "initOk eid sock w =
     (if eid < length (engines w) \<and> e_phase (engines w ! eid) = Initialising
      then let e = engines w ! eid
           in putEngine eid (e\<lparr>e_phase := Ready sock\<rparr>)
                (w\<lparr>sessionConnections := (sessionConnections w)(e_key e \<mapsto> sock)\<rparr>)
      else w)"

text \<open>The \<^verbatim>\<open>catch\<close> of \<^verbatim>\<open>sendMessages\<close> (lines 360 to 374), for an error with this message.\<close>

definition initFail :: "nat \<Rightarrow> string \<Rightarrow> server \<Rightarrow> server" where
  "initFail eid msg w =
     (if eid < length (engines w) \<and> e_phase (engines w ! eid) = Initialising
      then let e = engines w ! eid; k = e_key e
           in putEngine eid (e\<lparr>e_phase := Dead\<rparr>)
                (removeDir k
                  (stopRunning k
                    (broadcastLogs k (''[ERROR] Initialization failed: '' @ msg) w)))
      else w)"

text \<open>
  \<^verbatim>\<open>// Check if completed\<close> (lines 328 to 344): what the \<^verbatim>\<open>open\<close> branch does once the
  \<^verbatim>\<open>for\<close> loop is left, however it is left.
\<close>

definition completionCheck :: "string \<Rightarrow> server \<Rightarrow> server" where
  "completionCheck k w =
     (if isRunning w k
      then closeConnection k
             (removeDir k
               (stopRunning k
                 (broadcastLogs k ''[SYSTEM] Message sending completed'' w)))
      else w)"

definition recipient :: "string \<Rightarrow> string \<Rightarrow> string" where
  "recipient ttype tnumber =
     (if ttype = ''inbox'' then tnumber @ ''@s.whatsapp.net'' else tnumber)"

text \<open>
  The head of the \<^verbatim>\<open>for\<close> loop (lines 290 to 298) for run \<open>i\<close> with the messages still
  to come: the loop ends when there is none, breaks when the session is not running,
  and otherwise calls \<^verbatim>\<open>socket.sendMessage\<close> and waits for it.
\<close>

definition loopHead :: "nat \<Rightarrow> string list \<Rightarrow> server \<Rightarrow> server" where
  "loopHead i rest w =
     (let t = tasks w ! i; k = t_key t in
      case rest of
        [] \<Rightarrow> putTask i Done (completionCheck k w)
      | message # rest' \<Rightarrow>
          if \<not> isRunning w k then putTask i Done (completionCheck k w)
          else putTask i (Sending message rest')
                 (w\<lparr>sendCalls := sendCalls w @
                       [(k, recipient (t_targetType t) (t_targetNumber t), message)]\<rparr>))"

text \<open>
  \<^verbatim>\<open>socket.sendMessage\<close> resolved (lines 300 to 308). When the session is no longer in
  the map, \<^verbatim>\<open>session.sentCount++\<close> throws, and so does \<^verbatim>\<open>session.failedCount++\<close> in the
  \<^verbatim>\<open>catch\<close>: the run ends there. \<^verbatim>\<open>broadcastLogs\<close> and \<^verbatim>\<open>delay\<close> are taken not to throw:
  the log line is built from strings, and \<^verbatim>\<open>send\<close> is only called on open clients.
\<close>

definition sendResolved :: "nat \<Rightarrow> server \<Rightarrow> server" where
  "sendResolved i w =
     (if i < length (tasks w) then
        (let t = tasks w ! i; k = t_key t in
         case t_pc t of
           Sending message rest \<Rightarrow>
             (case getSession w k of
                None \<Rightarrow> putTask i Done w
              | Some session \<Rightarrow>
                  putTask i (Delaying False rest)
                    (broadcastLogs k
                       (''[SUCCESS] Sent to '' @ t_targetNumber t @ '': '' @ take 30 message @ ''...'')
                       (setSession k
                          (session\<lparr>sentCount := sentCount session + 1, lastActivity := now w\<rparr>) w)))
         | _ \<Rightarrow> w)
      else w)"

text \<open>
  \<^verbatim>\<open>socket.sendMessage\<close> rejected (lines 309 to 325) with an \<^verbatim>\<open>Error\<close>, whose
  \<^verbatim>\<open>message\<close> is this string.
\<close>

definition connectionError :: "string \<Rightarrow> bool" where
  "connectionError msg \<longleftrightarrow> includes_str msg ''connection'' \<or> includes_str msg ''socket''"

definition sendRejected :: "nat \<Rightarrow> string \<Rightarrow> server \<Rightarrow> server" where
  "sendRejected i msg w =
     (if i < length (tasks w) then
        (let t = tasks w ! i; k = t_key t in
         case t_pc t of
           Sending message rest \<Rightarrow>
             (case getSession w k of
                None \<Rightarrow> putTask i Done w
              | Some session \<Rightarrow>
                  putTask i (Delaying (connectionError msg) rest)
                    (broadcastLogs k (''[ERROR] Failed to send: '' @ msg)
                       (setSession k
                          (session\<lparr>failedCount := failedCount session + 1, lastActivity := now w\<rparr>) w)))
         | _ \<Rightarrow> w)
      else w)"

text \<open>
  A \<^verbatim>\<open>delay\<close> of the loop is over: after a connection error the loop breaks, otherwise
  the next iteration starts.
\<close>

definition delayElapsed :: "nat \<Rightarrow> server \<Rightarrow> server" where
  "delayElapsed i w =
     (if i < length (tasks w) then
        (let t = tasks w ! i in
         case t_pc t of
           Delaying brk rest \<Rightarrow>
             if brk then putTask i Done (completionCheck (t_key t) w)
             else loopHead i rest w
         | _ \<Rightarrow> w)
      else w)"

text \<open>
  A \<^verbatim>\<open>connection.update\<close> event (lines 274 to 354): \<^verbatim>\<open>connection\<close>, the status code
  \<^verbatim>\<open>lastDisconnect?.error?.output?.statusCode\<close> and whether \<^verbatim>\<open>qr\<close> is set.
\<close>

datatype connection = ConnOpen | ConnClose | ConnConnecting

record conn_update =
  u_connection :: "connection option"
  u_statusCode :: "int option"
  u_qr :: bool

definition scheduleReconnect :: "nat \<Rightarrow> server \<Rightarrow> server" where
  "scheduleReconnect eid w =
     putEngine eid ((engines w ! eid)\<lparr>timers := timers (engines w ! eid) + 1\<rparr>) w"

definition onOpen :: "nat \<Rightarrow> server \<Rightarrow> server" where
  "onOpen eid w =
     (let e = engines w ! eid; k = e_key e;
          w1 = broadcastLogs k ''[SYSTEM] Connected to WhatsApp'' w
      in case getSession w1 k of
           None \<Rightarrow> w1
         | Some session \<Rightarrow>
             let w2 = setSession k (session\<lparr>lastActivity := now w1\<rparr>) w1
             in loopHead (length (tasks w2)) (e_messages e)
                  (w2\<lparr>tasks := tasks w2 @
                        [\<lparr>t_key = k,
                          t_targetNumber = e_targetNumber e,
                          t_targetType = e_targetType e,
                          t_pc = Done\<rparr>]\<rparr>))"

definition onClose :: "nat \<Rightarrow> int option \<Rightarrow> server \<Rightarrow> server" where
  "onClose eid statusCode w =
     (let k = e_key (engines w ! eid);
          shouldReconnect = (statusCode \<noteq> Some 401)
      in if shouldReconnect \<and> isRunning w k
         then scheduleReconnect eid
                (broadcastLogs k ''[SYSTEM] Connection closed, reconnecting...'' w)
         else broadcastLogs k ''[ERROR] Connection closed permanently'' w)"

definition handlersSet :: "nat \<Rightarrow> server \<Rightarrow> bool" where
  "handlersSet eid w \<longleftrightarrow>
     eid < length (engines w) \<and>
     (case e_phase (engines w ! eid) of Ready sock \<Rightarrow> True | _ \<Rightarrow> False)"

definition connectionUpdate :: "nat \<Rightarrow> conn_update \<Rightarrow> server \<Rightarrow> server" where
  "connectionUpdate eid u w =
     (if handlersSet eid w then
        (let w1 = (if u_qr u
                   then broadcastLogs (e_key (engines w ! eid))
                          ''[SYSTEM] Scan QR code to continue session'' w
                   else w)
         in case u_connection u of
              Some ConnOpen \<Rightarrow> onOpen eid w1
            | Some ConnClose \<Rightarrow> onClose eid (u_statusCode u) w1
            | _ \<Rightarrow> w1)
      else w)"

text \<open>
  \<^verbatim>\<open>reconnect\<close> (lines 242 to 271) up to its first \<^verbatim>\<open>await\<close>: the guard, the counter,
  the log line and \<^verbatim>\<open>sock.end()\<close> on the socket of \<^verbatim>\<open>sendMessages\<close>.
\<close>

definition reconnect :: "nat \<Rightarrow> server \<Rightarrow> server" where
  "reconnect eid w =
     (let e = engines w ! eid; k = e_key e in
      if \<not> isRunning w k \<or> reconnectAttempts e \<ge> maxReconnectAttempts then w
      else
        let n = reconnectAttempts e + 1;
            w1 = putEngine eid (e\<lparr>reconnectAttempts := n, reconnecting := reconnecting e + 1\<rparr>) w;
            w2 = broadcastLogs k
                   (''[SYSTEM] Reconnecting (attempt '' @ decimal n @ ''/'' @
                      decimal maxReconnectAttempts @ '')'') w1
        in (case e_phase e of
              Ready sock \<Rightarrow> w2\<lparr>ended := ended w2 @ [sock]\<rparr>
            | _ \<Rightarrow> w2))"

text \<open>A timer set by \<^verbatim>\<open>setTimeout(reconnect, 10000)\<close> fires.\<close>

definition reconnectTimer :: "nat \<Rightarrow> server \<Rightarrow> server" where
  "reconnectTimer eid w =
     (if handlersSet eid w \<and> timers (engines w ! eid) > 0
      then reconnect eid
             (putEngine eid ((engines w ! eid)\<lparr>timers := timers (engines w ! eid) - 1\<rparr>) w)
      else w)"

text \<open>The \<^verbatim>\<open>try\<close> of \<^verbatim>\<open>reconnect\<close> went through with a new socket (lines 251 to 266).\<close>

definition reconnectOk :: "nat \<Rightarrow> nat \<Rightarrow> server \<Rightarrow> server" where
  "reconnectOk eid newSock w =
     (if handlersSet eid w \<and> reconnecting (engines w ! eid) > 0
      then let e = engines w ! eid; k = e_key e;
               w1 = broadcastLogs k ''[SYSTEM] Reconnected successfully''
                      (w\<lparr>sessionConnections := (sessionConnections w)(k \<mapsto> newSock)\<rparr>)
           in putEngine eid (e\<lparr>reconnectAttempts := 0, reconnecting := reconnecting e - 1\<rparr>) w1
      else w)"

text \<open>The \<^verbatim>\<open>try\<close> of \<^verbatim>\<open>reconnect\<close> threw an error with this message (lines 267 to 270).\<close>

definition reconnectFail :: "nat \<Rightarrow> string \<Rightarrow> server \<Rightarrow> server" where
  "reconnectFail eid msg w =
     (if handlersSet eid w \<and> reconnecting (engines w ! eid) > 0
      then let e = engines w ! eid; k = e_key e;
               w1 = broadcastLogs k (''[ERROR] Reconnect failed: '' @ msg) w
           in putEngine eid (e\<lparr>timers := timers e + 1, reconnecting := reconnecting e - 1\<rparr>) w1
      else w)"

section \<open>The server as a transition system\<close>

text \<open>
  JavaScript runs one handler at a time, up to its next \<^verbatim>\<open>await\<close>. An event is what
  starts or resumes a handler: a request, a WebSocket message, a timer, or the
  transport settling a promise or emitting \<^verbatim>\<open>connection.update\<close>. Engines and runs
  of the loop are named by their positions in \<open>engines\<close> and \<open>tasks\<close>. An event that
  cannot occur in a state (a promise nobody waits for) leaves the state as it is.
\<close>

datatype event =
    Tick int string
  | WsConnect nat
  | WsReadyState nat ready_state
  | WsClose nat
  | WsMessage nat ws_message
  | PostSend string send_request
  | PostStop string
  | SweepTimer
  | InitOk nat nat
  | InitFail nat string
  | ConnectionUpdate nat conn_update
  | SendResolved nat
  | SendRejected nat string
  | DelayElapsed nat
  | ReconnectTimer nat
  | ReconnectOk nat nat
  | ReconnectFail nat string

fun step :: "event \<Rightarrow> server \<Rightarrow> server" where
  "step (Tick t s) w = w\<lparr>now := t, localeTime := s\<rparr>"
| "step (WsConnect i) w =
     (case clients w i of
        None \<Rightarrow> w\<lparr>clients := (clients w)(i \<mapsto> \<lparr>readyState = OPEN, sessionKey = None, frames = []\<rparr>)\<rparr>
      | Some ws \<Rightarrow> w)"
| "step (WsReadyState i rs) w =
     (case clients w i of
        None \<Rightarrow> w
      | Some ws \<Rightarrow> w\<lparr>clients := (clients w)(i \<mapsto> ws\<lparr>readyState := rs\<rparr>)\<rparr>)"
| "step (WsClose i) w = w\<lparr>clients := (clients w)(i := None)\<rparr>"
| "step (WsMessage i m) w = onMessage i m w"
| "step (PostSend key req) w = (case sendHandler key req w of Inl err \<Rightarrow> w | Inr w' \<Rightarrow> w')"
| "step (PostStop key) w = (case stopHandler key w of Inl err \<Rightarrow> w | Inr w' \<Rightarrow> w')"
| "step SweepTimer w = sweep w"
| "step (InitOk eid sock) w = initOk eid sock w"
| "step (InitFail eid msg) w = initFail eid msg w"
| "step (ConnectionUpdate eid u) w = connectionUpdate eid u w"
| "step (SendResolved i) w = sendResolved i w"
| "step (SendRejected i msg) w = sendRejected i msg w"
| "step (DelayElapsed i) w = delayElapsed i w"
| "step (ReconnectTimer eid) w = reconnectTimer eid w"
| "step (ReconnectOk eid sock) w = reconnectOk eid sock w"
| "step (ReconnectFail eid msg) w = reconnectFail eid msg w"

definition run :: "event list \<Rightarrow> server \<Rightarrow> server" where
  "run evs w = fold step evs w"

text \<open>The server when the module has been loaded: empty maps, no client.\<close>

definition boot :: server where
  "boot = \<lparr>activeSessions = [],
           sessionLogs = Map.empty,
           sessionConnections = Map.empty,
           clients = Map.empty,
           now = 0,
           localeTime = [],
           engines = [],
           tasks = [],
           sendCalls = [],
           ended = [],
           rmCalls = []\<rparr>"

section \<open>Measures and invariants\<close>

text \<open>
  For a session key: the sends of its runs that are in flight, the \<^verbatim>\<open>sendMessage\<close> calls
  made for it so far (the messages dequeued), and the sum of its two counters (0 when
  the map has no session for the key).
\<close>

definition isSending :: "pc \<Rightarrow> bool" where
  "isSending p = (case p of Sending m r \<Rightarrow> True | _ \<Rightarrow> False)"

definition inflight :: "string \<Rightarrow> server \<Rightarrow> nat" where
  "inflight k w = length (filter (\<lambda>t. t_key t = k \<and> isSending (t_pc t)) (tasks w))"

definition dequeued :: "string \<Rightarrow> server \<Rightarrow> nat" where
  "dequeued k w = length (filter (\<lambda>c. fst c = k) (sendCalls w))"

definition counted :: "string \<Rightarrow> server \<Rightarrow> nat" where
  "counted k w = (case getSession w k of None \<Rightarrow> 0 | Some s \<Rightarrow> sentCount s + failedCount s)"

text \<open>
  What one event may do to the books of a key: send calls are only added, and only
  while the session runs; what the counters and the sends in flight gain together is
  covered by new send calls.
\<close>

definition account :: "string \<Rightarrow> server \<Rightarrow> server \<Rightarrow> bool" where
  "account k w w' \<longleftrightarrow>
     dequeued k w \<le> dequeued k w' \<and>
     (isRunning w k \<or> dequeued k w' = dequeued k w) \<and>
     counted k w' + inflight k w' + dequeued k w \<le> counted k w + inflight k w + dequeued k w'"

text \<open>
  A later state of the same session object: the counters have not gone down, a stopped
  session has not started again, and target and start time are as they were.
\<close>

definition evolves :: "session \<Rightarrow> session \<Rightarrow> bool" where
  "evolves s s' \<longleftrightarrow>
     sentCount s \<le> sentCount s' \<and> failedCount s \<le> failedCount s' \<and>
     (running s \<or> \<not> running s') \<and>
     targetNumber s' = targetNumber s \<and> targetType s' = targetType s \<and>
     startTime s' = startTime s"

definition lineage :: "string \<Rightarrow> server \<Rightarrow> server \<Rightarrow> bool" where
  "lineage k w w' \<longleftrightarrow>
     (case getSession w' k of
        None \<Rightarrow> True
      | Some s' \<Rightarrow> (case getSession w k of None \<Rightarrow> False | Some s \<Rightarrow> evolves s s'))"

definition quiet :: "string \<Rightarrow> server \<Rightarrow> server \<Rightarrow> bool" where
  "quiet k w w' \<longleftrightarrow>
     account k w w' \<and> lineage k w w' \<and>
     (case getSession w' k of None \<Rightarrow> getSession w k = None | Some s' \<Rightarrow> True)"

definition balanced :: "string \<Rightarrow> server \<Rightarrow> bool" where
  "balanced k w \<longleftrightarrow> counted k w + inflight k w \<le> dequeued k w"

definition halted :: "string \<Rightarrow> nat \<Rightarrow> nat \<Rightarrow> server \<Rightarrow> bool" where
  "halted k c d w \<longleftrightarrow> \<not> isRunning w k \<and> counted k w + inflight k w \<le> c \<and> dequeued k w = d"

text \<open>The event \<^verbatim>\<open>POST /send\<close> that draws this session key.\<close>

definition creates :: "string \<Rightarrow> event \<Rightarrow> bool" where
  "creates k ev = (case ev of PostSend key req \<Rightarrow> key = k | _ \<Rightarrow> False)"

text \<open>What the sweep deletes: a session that is not running and idle for more than an hour.\<close>

definition stale :: "server \<Rightarrow> session \<Rightarrow> bool" where
  "stale w s \<longleftrightarrow> \<not> running s \<and> now w - lastActivity s > 3600000"

definition logs_ok :: "server \<Rightarrow> bool" where
  "logs_ok w \<longleftrightarrow> (\<forall>k logs. sessionLogs w k = Some logs \<longrightarrow> length logs \<le> 500)"

definition attempts_ok :: "server \<Rightarrow> bool" where
  "attempts_ok w \<longleftrightarrow> list_all (\<lambda>e. reconnectAttempts e \<le> maxReconnectAttempts) (engines w)"

definition keys_ok :: "server \<Rightarrow> bool" where
  "keys_ok w \<longleftrightarrow> distinct (map fst (activeSessions w))"

definition unsubscribed :: "nat \<Rightarrow> string \<Rightarrow> server \<Rightarrow> bool" where
  "unsubscribed i key w \<longleftrightarrow>
     (case clients w i of None \<Rightarrow> True | Some c \<Rightarrow> sessionKey c \<noteq> Some key)"

text \<open>
  A call of \<^verbatim>\<open>reconnect\<close> makes an attempt when it gets past its guard: it then waits at
  the \<^verbatim>\<open>await\<close> of its \<^verbatim>\<open>try\<close> block, so the engine has one more reconnect under way.
  The attempts an engine makes during a sequence of events are counted event by event.
  A reconnect of the engine goes through at the event \<open>ReconnectOk\<close>.
\<close>

definition attempted :: "nat \<Rightarrow> server \<Rightarrow> server \<Rightarrow> bool" where
  "attempted eid w w' \<longleftrightarrow> reconnecting (engines w ! eid) < reconnecting (engines w' ! eid)"

fun attempts_in :: "nat \<Rightarrow> event list \<Rightarrow> server \<Rightarrow> nat" where
  "attempts_in eid [] w = 0"
| "attempts_in eid (ev # evs) w =
     (if attempted eid w (step ev w) then 1 else 0) + attempts_in eid evs (step ev w)"

definition goes_through :: "nat \<Rightarrow> event \<Rightarrow> bool" where
  "goes_through eid ev = (case ev of ReconnectOk e sock \<Rightarrow> e = eid | _ \<Rightarrow> False)"

section \<open>Scenarios\<close>

text \<open>
  A campaign of three messages for the session key \<^verbatim>\<open>k\<close>, started at nine o'clock:
  the request, the socket 1 that \<^verbatim>\<open>makeWASocket\<close> returns, and the
  \<^verbatim>\<open>connection.update\<close> events of the transport.
\<close>

definition three_lines :: send_request where
  "three_lines =
     \<lparr>req_creds = Some ''e30='',
      req_targetNumber = ''123'',
      req_targetType = ''inbox'',
      req_hatersName = ''X'',
      req_file = Some [CHR ''a'', newline, CHR ''b'', newline, CHR ''c'']\<rparr>"

definition conn_opened :: conn_update where
  "conn_opened = \<lparr>u_connection = Some ConnOpen, u_statusCode = None, u_qr = False\<rparr>"

definition conn_closed :: "int option \<Rightarrow> conn_update" where
  "conn_closed statusCode = \<lparr>u_connection = Some ConnClose, u_statusCode = statusCode, u_qr = False\<rparr>"

definition started :: "event list" where
  "started = [Tick 0 ''09:00:00'', PostSend ''k'' three_lines, InitOk 0 1]"

text \<open>The session of \<^verbatim>\<open>k\<close> in these scenarios, by its running flag and its counters.\<close>

definition session_k :: "bool \<Rightarrow> nat \<Rightarrow> nat \<Rightarrow> session" where
  "session_k r s f =
     \<lparr>running = r, targetNumber = ''123'', targetType = ''inbox'', startTime = 0,
      sentCount = s, failedCount = f, lastActivity = 0\<rparr>"

text \<open>The connection opens and the first send is in flight.\<close>

definition first_in_flight :: "event list" where
  "first_in_flight = started @ [ConnectionUpdate 0 conn_opened]"

text \<open>Two sends succeed, the third is rejected with a connection error.\<close>

definition third_fails :: "event list" where
  "third_fails = first_in_flight @
     [SendResolved 0, DelayElapsed 0, SendResolved 0, DelayElapsed 0,
      SendRejected 0 ''connection lost'']"

text \<open>
  The connection closes for a reason other than 401, the timer fires and the reconnect
  goes through; and a reconnect that fails.
\<close>

definition reconnect_cycle :: "event list" where
  "reconnect_cycle = [ConnectionUpdate 0 (conn_closed None), ReconnectTimer 0, ReconnectOk 0 2]"

definition failing_cycle :: "event list" where
  "failing_cycle = [ReconnectTimer 0, ReconnectFail 0 ''gone'']"

definition reconnects :: "nat \<Rightarrow> event list" where
  "reconnects n = started @ concat (replicate n reconnect_cycle)"

definition failures :: "nat \<Rightarrow> event list" where
  "failures n =
     started @ [ConnectionUpdate 0 (conn_closed None)] @ concat (replicate n failing_cycle)"

text \<open>
  Engine 0 serves \<^verbatim>\<open>k\<close>, has its handlers set and its session running, with this value
  of \<^verbatim>\<open>reconnectAttempts\<close>, this many timers pending and no reconnect under way.
\<close>

definition poised :: "nat \<Rightarrow> nat \<Rightarrow> server \<Rightarrow> bool" where
  "poised a t w \<longleftrightarrow>
     handlersSet 0 w \<and> e_key (engines w ! 0) = ''k'' \<and> isRunning w ''k'' \<and>
     reconnectAttempts (engines w ! 0) = a \<and> timers (engines w ! 0) = t \<and>
     reconnecting (engines w ! 0) = 0"

text \<open>A log buffer that holds 500 entries, numbered from 0.\<close>

definition full_buffer :: server where
  "full_buffer = boot\<lparr>sessionLogs := [''k'' \<mapsto> map decimal [0..<500]]\<rparr>"

text \<open>
  Two sessions created at midnight, \<^verbatim>\<open>b\<close> stopped at once, and the clock two hours
  later; and the clock exactly one hour later.
\<close>

definition two_sessions :: "event list" where
  "two_sessions =
     [Tick 0 ''00:00:00'', PostSend ''a'' three_lines, PostSend ''b'' three_lines, PostStop ''b'']"

definition session_at_midnight :: "bool \<Rightarrow> session" where
  "session_at_midnight r =
     \<lparr>running = r, targetNumber = ''123'', targetType = ''inbox'', startTime = 0,
      sentCount = 0, failedCount = 0, lastActivity = 0\<rparr>"

text \<open>An observer that has just connected.\<close>

definition fresh_client :: client where
  "fresh_client = \<lparr>readyState = OPEN, sessionKey = None, frames = []\<rparr>"

text \<open>
  An observer subscribes to \<^verbatim>\<open>k\<close> while the session exists; the session is stopped and,
  an hour later, swept with its log buffer.
\<close>

definition resubscribed :: "event list" where
  "resubscribed =
     [Tick 0 ''09:00:00'', WsConnect 5, PostSend ''k'' three_lines, InitOk 0 1,
      WsMessage 5 (Subscribe ''k''), PostStop ''k'', Tick 3600001 ''10:00:01'', SweepTimer]"

section \<open>Reading the state after an operation\<close>

lemma getSession_setSession [simp]:
  "getSession (setSession k s w) k' = (if k' = k then Some s else getSession w k')"
  by (simp add: getSession_def setSession_def update_conv')

lemma setSession_fields [simp]:
  "sessionLogs (setSession k s w) = sessionLogs w"
  "sessionConnections (setSession k s w) = sessionConnections w"
  "clients (setSession k s w) = clients w"
  "now (setSession k s w) = now w"
  "localeTime (setSession k s w) = localeTime w"
  "engines (setSession k s w) = engines w"
  "tasks (setSession k s w) = tasks w"
  "sendCalls (setSession k s w) = sendCalls w"
  "ended (setSession k s w) = ended w"
  "rmCalls (setSession k s w) = rmCalls w"
  by (simp_all add: setSession_def)

lemma broadcastLogs_fields [simp]:
  "activeSessions (broadcastLogs k m w) = activeSessions w"
  "sessionConnections (broadcastLogs k m w) = sessionConnections w"
  "now (broadcastLogs k m w) = now w"
  "localeTime (broadcastLogs k m w) = localeTime w"
  "engines (broadcastLogs k m w) = engines w"
  "tasks (broadcastLogs k m w) = tasks w"
  "sendCalls (broadcastLogs k m w) = sendCalls w"
  "ended (broadcastLogs k m w) = ended w"
  "rmCalls (broadcastLogs k m w) = rmCalls w"
  by (simp_all add: broadcastLogs_def)

lemma getSession_broadcastLogs [simp]: "getSession (broadcastLogs k m w) = getSession w"
  by (rule ext) (simp add: getSession_def)

lemma sessionLogs_broadcastLogs:
  "sessionLogs (broadcastLogs k m w) =
     (sessionLogs w)(k \<mapsto> pushLog (logLine (localeTime w) m)
                               (case sessionLogs w k of None \<Rightarrow> [] | Some l \<Rightarrow> l))"
  by (simp add: broadcastLogs_def)

lemma clients_broadcastLogs:
  "clients (broadcastLogs k m w) i = map_option (notify k m) (clients w i)"
  by (simp add: broadcastLogs_def)

lemma removeDir_fields [simp]:
  "activeSessions (removeDir k w) = activeSessions w"
  "sessionLogs (removeDir k w) = sessionLogs w"
  "sessionConnections (removeDir k w) = sessionConnections w"
  "clients (removeDir k w) = clients w"
  "now (removeDir k w) = now w"
  "localeTime (removeDir k w) = localeTime w"
  "engines (removeDir k w) = engines w"
  "tasks (removeDir k w) = tasks w"
  "sendCalls (removeDir k w) = sendCalls w"
  "ended (removeDir k w) = ended w"
  "rmCalls (removeDir k w) = rmCalls w @ [k]"
  by (simp_all add: removeDir_def)

lemma getSession_removeDir [simp]: "getSession (removeDir k w) = getSession w"
  by (rule ext) (simp add: getSession_def)

lemma closeConnection_fields [simp]:
  "activeSessions (closeConnection k w) = activeSessions w"
  "sessionLogs (closeConnection k w) = sessionLogs w"
  "clients (closeConnection k w) = clients w"
  "now (closeConnection k w) = now w"
  "localeTime (closeConnection k w) = localeTime w"
  "engines (closeConnection k w) = engines w"
  "tasks (closeConnection k w) = tasks w"
  "sendCalls (closeConnection k w) = sendCalls w"
  "rmCalls (closeConnection k w) = rmCalls w"
  by (simp_all add: closeConnection_def split: option.splits)

lemma sessionConnections_closeConnection [simp]:
  "sessionConnections (closeConnection k w) = (sessionConnections w)(k := None)"
  by (auto simp add: closeConnection_def split: option.splits)

lemma getSession_closeConnection [simp]: "getSession (closeConnection k w) = getSession w"
  by (rule ext) (simp add: getSession_def)

lemma putEngine_fields [simp]:
  "activeSessions (putEngine eid e w) = activeSessions w"
  "sessionLogs (putEngine eid e w) = sessionLogs w"
  "sessionConnections (putEngine eid e w) = sessionConnections w"
  "clients (putEngine eid e w) = clients w"
  "now (putEngine eid e w) = now w"
  "localeTime (putEngine eid e w) = localeTime w"
  "engines (putEngine eid e w) = (engines w)[eid := e]"
  "tasks (putEngine eid e w) = tasks w"
  "sendCalls (putEngine eid e w) = sendCalls w"
  "ended (putEngine eid e w) = ended w"
  "rmCalls (putEngine eid e w) = rmCalls w"
  by (simp_all add: putEngine_def)

lemma getSession_putEngine [simp]: "getSession (putEngine eid e w) = getSession w"
  by (rule ext) (simp add: getSession_def)

lemma putTask_fields [simp]:
  "activeSessions (putTask i p w) = activeSessions w"
  "sessionLogs (putTask i p w) = sessionLogs w"
  "sessionConnections (putTask i p w) = sessionConnections w"
  "clients (putTask i p w) = clients w"
  "now (putTask i p w) = now w"
  "localeTime (putTask i p w) = localeTime w"
  "engines (putTask i p w) = engines w"
  "tasks (putTask i p w) = (tasks w)[i := (tasks w ! i)\<lparr>t_pc := p\<rparr>]"
  "sendCalls (putTask i p w) = sendCalls w"
  "ended (putTask i p w) = ended w"
  "rmCalls (putTask i p w) = rmCalls w"
  by (simp_all add: putTask_def)

lemma getSession_putTask [simp]: "getSession (putTask i p w) = getSession w"
  by (rule ext) (simp add: getSession_def)

lemma stopRunning_fields [simp]:
  "sessionLogs (stopRunning k w) = sessionLogs w"
  "sessionConnections (stopRunning k w) = sessionConnections w"
  "clients (stopRunning k w) = clients w"
  "now (stopRunning k w) = now w"
  "localeTime (stopRunning k w) = localeTime w"
  "engines (stopRunning k w) = engines w"
  "tasks (stopRunning k w) = tasks w"
  "sendCalls (stopRunning k w) = sendCalls w"
  "ended (stopRunning k w) = ended w"
  "rmCalls (stopRunning k w) = rmCalls w"
  by (simp_all add: stopRunning_def split: option.splits)

lemma getSession_stopRunning [simp]:
  "getSession (stopRunning k w) k' =
     (if k' = k then map_option (\<lambda>s. s\<lparr>running := False\<rparr>) (getSession w k) else getSession w k')"
  by (simp add: stopRunning_def split: option.splits)

lemma scheduleReconnect_fields [simp]:
  "activeSessions (scheduleReconnect eid w) = activeSessions w"
  "sessionLogs (scheduleReconnect eid w) = sessionLogs w"
  "sessionConnections (scheduleReconnect eid w) = sessionConnections w"
  "clients (scheduleReconnect eid w) = clients w"
  "now (scheduleReconnect eid w) = now w"
  "localeTime (scheduleReconnect eid w) = localeTime w"
  "tasks (scheduleReconnect eid w) = tasks w"
  "sendCalls (scheduleReconnect eid w) = sendCalls w"
  "ended (scheduleReconnect eid w) = ended w"
  "rmCalls (scheduleReconnect eid w) = rmCalls w"
  by (simp_all add: scheduleReconnect_def)

lemma getSession_scheduleReconnect [simp]: "getSession (scheduleReconnect eid w) = getSession w"
  by (rule ext) (simp add: getSession_def)

lemma getSession_upd [simp]:
  "getSession (w\<lparr>sessionLogs := a\<rparr>) = getSession w"
  "getSession (w\<lparr>sessionConnections := b\<rparr>) = getSession w"
  "getSession (w\<lparr>clients := c\<rparr>) = getSession w"
  "getSession (w\<lparr>now := d\<rparr>) = getSession w"
  "getSession (w\<lparr>localeTime := e\<rparr>) = getSession w"
  "getSession (w\<lparr>engines := f\<rparr>) = getSession w"
  "getSession (w\<lparr>tasks := g\<rparr>) = getSession w"
  "getSession (w\<lparr>sendCalls := h\<rparr>) = getSession w"
  "getSession (w\<lparr>ended := i\<rparr>) = getSession w"
  "getSession (w\<lparr>rmCalls := j\<rparr>) = getSession w"
  by (rule ext, simp add: getSession_def)+

lemma isRunning_cong: "getSession w' k = getSession w k \<Longrightarrow> isRunning w' k = isRunning w k"
  by (simp add: isRunning_def)

lemma isRunning_fields [simp]:
  "isRunning (broadcastLogs k m w) = isRunning w"
  "isRunning (removeDir k w) = isRunning w"
  "isRunning (closeConnection k w) = isRunning w"
  "isRunning (putEngine eid e w) = isRunning w"
  "isRunning (putTask i p w) = isRunning w"
  "isRunning (scheduleReconnect eid w) = isRunning w"
  by (rule ext, simp add: isRunning_def)+

lemma isRunning_upd [simp]:
  "isRunning (w\<lparr>sessionLogs := a\<rparr>) = isRunning w"
  "isRunning (w\<lparr>sessionConnections := b\<rparr>) = isRunning w"
  "isRunning (w\<lparr>clients := c\<rparr>) = isRunning w"
  "isRunning (w\<lparr>now := d\<rparr>) = isRunning w"
  "isRunning (w\<lparr>localeTime := e\<rparr>) = isRunning w"
  "isRunning (w\<lparr>engines := f\<rparr>) = isRunning w"
  "isRunning (w\<lparr>tasks := g\<rparr>) = isRunning w"
  "isRunning (w\<lparr>sendCalls := h\<rparr>) = isRunning w"
  "isRunning (w\<lparr>ended := i\<rparr>) = isRunning w"
  "isRunning (w\<lparr>rmCalls := j\<rparr>) = isRunning w"
  by (rule ext, simp add: isRunning_def)+

section \<open>What an event does to the books of a session\<close>

text \<open>
  Every handler is shown to be \<open>quiet\<close> for every key: it keeps the books of the key,
  keeps the session object in its line, and does not delete it. The sweep and the
  creation of the key itself are the two exceptions, treated apart.
\<close>

lemma evolves_refl [simp]: "evolves s s"
  by (simp add: evolves_def)

lemma evolves_trans: "evolves a b \<Longrightarrow> evolves b c \<Longrightarrow> evolves a c"
  by (auto simp add: evolves_def)

lemma account_refl [simp]: "account k w w"
  by (simp add: account_def)

lemma lineage_refl [simp]: "lineage k w w"
  by (simp add: lineage_def split: option.splits)

lemma lineage_trans: "lineage k a b \<Longrightarrow> lineage k b c \<Longrightarrow> lineage k a c"
  by (auto simp add: lineage_def split: option.splits intro: evolves_trans)

lemma account_same:
  "getSession w' k = getSession w k \<Longrightarrow> tasks w' = tasks w \<Longrightarrow> sendCalls w' = sendCalls w
     \<Longrightarrow> account k w w'"
  by (simp add: account_def counted_def inflight_def dequeued_def)

lemma lineage_same: "getSession w' k = getSession w k \<Longrightarrow> lineage k w w'"
  by (simp add: lineage_def split: option.splits)

lemma count_update:
  "i < length xs \<Longrightarrow>
     length (filter P (xs[i := y])) + (if P (xs ! i) then 1 else 0)
       = length (filter P xs) + (if P y then 1 else 0)"
proof (induction xs arbitrary: i)
  case Nil
  then show ?case by simp
next
  case (Cons x xs)
  then show ?case by (cases i) auto
qed

lemma inflight_putTask:
  "i < length (tasks w) \<Longrightarrow>
     inflight k (putTask i p w)
       + (if t_key (tasks w ! i) = k \<and> isSending (t_pc (tasks w ! i)) then 1 else 0)
     = inflight k w + (if t_key (tasks w ! i) = k \<and> isSending p then 1 else 0)"
  using count_update [of i "tasks w" "\<lambda>t. t_key t = k \<and> isSending (t_pc t)" "(tasks w ! i)\<lparr>t_pc := p\<rparr>"]
  by (simp add: inflight_def)

lemma inflight_fields [simp]:
  "inflight k (broadcastLogs k' m w) = inflight k w"
  "inflight k (removeDir k' w) = inflight k w"
  "inflight k (closeConnection k' w) = inflight k w"
  "inflight k (putEngine eid e w) = inflight k w"
  "inflight k (setSession k' s w) = inflight k w"
  "inflight k (stopRunning k' w) = inflight k w"
  "inflight k (scheduleReconnect eid w) = inflight k w"
  "inflight k (w\<lparr>sendCalls := c\<rparr>) = inflight k w"
  by (simp_all add: inflight_def)

lemma dequeued_fields [simp]:
  "dequeued k (broadcastLogs k' m w) = dequeued k w"
  "dequeued k (removeDir k' w) = dequeued k w"
  "dequeued k (closeConnection k' w) = dequeued k w"
  "dequeued k (putEngine eid e w) = dequeued k w"
  "dequeued k (putTask i p w) = dequeued k w"
  "dequeued k (setSession k' s w) = dequeued k w"
  "dequeued k (stopRunning k' w) = dequeued k w"
  "dequeued k (scheduleReconnect eid w) = dequeued k w"
  "dequeued k (w\<lparr>tasks := ts\<rparr>) = dequeued k w"
  by (simp_all add: dequeued_def)

lemma counted_fields [simp]:
  "counted k (broadcastLogs k' m w) = counted k w"
  "counted k (removeDir k' w) = counted k w"
  "counted k (closeConnection k' w) = counted k w"
  "counted k (putEngine eid e w) = counted k w"
  "counted k (putTask i p w) = counted k w"
  "counted k (stopRunning k' w) = counted k w"
  "counted k (scheduleReconnect eid w) = counted k w"
  "counted k (w\<lparr>tasks := ts\<rparr>) = counted k w"
  "counted k (w\<lparr>sendCalls := c\<rparr>) = counted k w"
  by (simp_all add: counted_def split: option.splits)

lemma isRunning_stopRunning [simp]:
  "isRunning (stopRunning k' w) k = (k \<noteq> k' \<and> isRunning w k)"
  by (auto simp add: isRunning_def split: option.splits)

lemma getSession_completionCheck:
  "getSession (completionCheck k' w) k =
     (if k = k' \<and> isRunning w k' then map_option (\<lambda>s. s\<lparr>running := False\<rparr>) (getSession w k)
      else getSession w k)"
  by (simp add: completionCheck_def)

lemma completionCheck_readers [simp]:
  "inflight k (completionCheck k' w) = inflight k w"
  "dequeued k (completionCheck k' w) = dequeued k w"
  by (simp_all add: completionCheck_def)

lemma completionCheck_fields [simp]:
  "tasks (completionCheck k w) = tasks w"
  "sendCalls (completionCheck k w) = sendCalls w"
  "engines (completionCheck k w) = engines w"
  "clients (completionCheck k w) i = (if isRunning w k then map_option (notify k ''[SYSTEM] Message sending completed'') (clients w i) else clients w i)"
  "now (completionCheck k w) = now w"
  "localeTime (completionCheck k w) = localeTime w"
  by (simp_all add: completionCheck_def clients_broadcastLogs)

lemma quiet_refl [simp]: "quiet k w w"
  by (auto simp add: quiet_def split: option.splits)

lemma quiet_same:
  "getSession w' k = getSession w k \<Longrightarrow> tasks w' = tasks w \<Longrightarrow> sendCalls w' = sendCalls w
     \<Longrightarrow> quiet k w w'"
  by (auto simp add: quiet_def account_same lineage_same split: option.splits)

lemma quiet_flags:
  assumes "tasks w' = tasks w" "sendCalls w' = sendCalls w"
    and "getSession w' k = getSession w k \<or>
         (\<exists>s s'. getSession w k = Some s \<and> getSession w' k = Some s' \<and> evolves s s' \<and>
            sentCount s' = sentCount s \<and> failedCount s' = failedCount s)"
  shows "quiet k w w'"
  using assms
  by (auto simp add: quiet_def account_def lineage_def evolves_def counted_def inflight_def
      dequeued_def isRunning_def split: option.splits)

lemma quiet_completionCheck: "quiet k w (completionCheck k' w)"
  by (rule quiet_flags)
    (auto simp add: getSession_completionCheck evolves_def split: option.splits)

lemma quiet_pre:
  assumes "quiet k w1 w'" "getSession w1 k = getSession w k \<or>
         (\<exists>s t. getSession w k = Some s \<and> getSession w1 k = Some (s\<lparr>lastActivity := t\<rparr>))"
    "inflight k w1 = inflight k w" "dequeued k w1 = dequeued k w"
  shows "quiet k w w'"
proof -
  from assms(2) have "counted k w1 = counted k w" "isRunning w1 k = isRunning w k"
    by (auto simp add: counted_def isRunning_def)
  moreover from assms(2) have "lineage k w w1"
    by (auto simp add: lineage_def evolves_def split: option.splits)
  moreover from assms(2) have "getSession w1 k = None \<Longrightarrow> getSession w k = None"
    by auto
  ultimately show ?thesis
    using assms(1,3,4) lineage_trans [of k w w1 w']
    by (simp add: quiet_def account_def split: option.splits)
qed

lemma getSession_loopHead:
  "getSession (loopHead i rest w) k =
     (if rest = [] \<or> \<not> isRunning w (t_key (tasks w ! i))
      then getSession (completionCheck (t_key (tasks w ! i)) w) k else getSession w k)"
  by (simp add: loopHead_def Let_def split: list.splits)

lemma quiet_loopHead:
  assumes "i < length (tasks w)" "\<not> isSending (t_pc (tasks w ! i))"
  shows "quiet k w (loopHead i rest w)"
proof (cases "rest = [] \<or> \<not> isRunning w (t_key (tasks w ! i))")
  case True
  let ?c = "completionCheck (t_key (tasks w ! i)) w"
  have "quiet k w ?c" by (rule quiet_completionCheck)
  moreover have "inflight k (putTask i Done ?c) = inflight k w"
    using assms inflight_putTask [of i ?c k Done]
    by (simp add: isSending_def inflight_def)
  ultimately have "quiet k w (putTask i Done ?c)"
    by (simp add: quiet_def account_def lineage_def)
  with True show ?thesis
    by (auto simp add: loopHead_def Let_def split: list.splits)
next
  case False
  then obtain m rest' where r: "rest = m # rest'" and run: "isRunning w (t_key (tasks w ! i))"
    by (cases rest) auto
  let ?w1 = "w\<lparr>sendCalls := sendCalls w @
                 [(t_key (tasks w ! i), recipient (t_targetType (tasks w ! i)) (t_targetNumber (tasks w ! i)), m)]\<rparr>"
  have "quiet k w (putTask i (Sending m rest') ?w1)"
    using assms run inflight_putTask [of i ?w1 k "Sending m rest'"]
    by (auto simp add: quiet_def account_def lineage_def isSending_def dequeued_def
        split: if_splits option.splits)
  with r run show ?thesis
    by (simp add: loopHead_def Let_def)
qed

lemma quiet_delayElapsed: "quiet k w (delayElapsed i w)"
proof (cases "i < length (tasks w)")
  case False
  then show ?thesis by (simp add: delayElapsed_def)
next
  case True
  show ?thesis
  proof (cases "t_pc (tasks w ! i)")
    case (Sending m r)
    then show ?thesis using True by (simp add: delayElapsed_def)
  next
    case Done
    then show ?thesis using True by (simp add: delayElapsed_def)
  next
    case (Delaying brk rest)
    show ?thesis
    proof (cases brk)
      case False
      then show ?thesis
        using True Delaying quiet_loopHead [where i = i and w = w and rest = rest and k = k]
        by (simp add: delayElapsed_def isSending_def)
    next
      case brk: True
      let ?c = "completionCheck (t_key (tasks w ! i)) w"
      have "quiet k w ?c" by (rule quiet_completionCheck)
      moreover have "inflight k (putTask i Done ?c) = inflight k w"
        using True Delaying inflight_putTask [of i ?c k Done]
        by (simp add: isSending_def inflight_def)
      ultimately have "quiet k w (putTask i Done ?c)"
        by (simp add: quiet_def account_def lineage_def)
      then show ?thesis
        using True Delaying brk by (simp add: delayElapsed_def)
    qed
  qed
qed

lemma quiet_settle:
  assumes i: "i < length (tasks w)" and pc: "t_pc (tasks w ! i) = Sending m rest"
    and s: "getSession w (t_key (tasks w ! i)) = Some s"
    and s': "sentCount s' + failedCount s' = Suc (sentCount s + failedCount s)"
       "sentCount s \<le> sentCount s'" "failedCount s \<le> failedCount s'"
       "running s' = running s" "targetNumber s' = targetNumber s" "targetType s' = targetType s"
       "startTime s' = startTime s"
  shows "quiet k w (putTask i (Delaying b rest) (broadcastLogs (t_key (tasks w ! i)) msg
            (setSession (t_key (tasks w ! i)) s' w)))"
  using assms
    inflight_putTask [of i "broadcastLogs (t_key (tasks w ! i)) msg (setSession (t_key (tasks w ! i)) s' w)"
       k "Delaying b rest"]
  by (auto simp add: quiet_def account_def lineage_def evolves_def counted_def isSending_def
      isRunning_def split: option.splits if_splits)

lemma quiet_crash:
  assumes i: "i < length (tasks w)"
  shows "quiet k w (putTask i Done w)"
  using assms inflight_putTask [of i w k Done]
  by (auto simp add: quiet_def account_def lineage_def counted_def isSending_def
      split: option.splits if_splits)

lemma quiet_sendResolved: "quiet k w (sendResolved i w)"
proof (cases "i < length (tasks w)")
  case False
  then show ?thesis by (simp add: sendResolved_def)
next
  case True
  show ?thesis
  proof (cases "t_pc (tasks w ! i)")
    case (Sending m rest)
    show ?thesis
    proof (cases "getSession w (t_key (tasks w ! i))")
      case None
      then show ?thesis using True Sending quiet_crash [of i w k]
        by (simp add: sendResolved_def)
    next
      case (Some s)
      then show ?thesis
        using True Sending
          quiet_settle [where i = i and w = w and s = s and k = k and
              s' = "s\<lparr>sentCount := sentCount s + 1, lastActivity := now w\<rparr>"]
        by (simp add: sendResolved_def Let_def)
    qed
  qed (use True in \<open>simp_all add: sendResolved_def\<close>)
qed

lemma quiet_sendRejected: "quiet k w (sendRejected i msg w)"
proof (cases "i < length (tasks w)")
  case False
  then show ?thesis by (simp add: sendRejected_def)
next
  case True
  show ?thesis
  proof (cases "t_pc (tasks w ! i)")
    case (Sending m rest)
    show ?thesis
    proof (cases "getSession w (t_key (tasks w ! i))")
      case None
      then show ?thesis using True Sending quiet_crash [of i w k]
        by (simp add: sendRejected_def)
    next
      case (Some s)
      then show ?thesis
        using True Sending
          quiet_settle [where i = i and w = w and s = s and k = k and
              s' = "s\<lparr>failedCount := failedCount s + 1, lastActivity := now w\<rparr>"]
        by (simp add: sendRejected_def Let_def)
    qed
  qed (use True in \<open>simp_all add: sendRejected_def\<close>)
qed

lemma quiet_onClose: "quiet k w (onClose eid sc w)"
  by (rule quiet_same) (simp_all add: onClose_def Let_def)

lemma quiet_onOpen: "quiet k w (onOpen eid w)"
proof -
  let ?e = "engines w ! eid"
  let ?k = "e_key ?e"
  let ?w1 = "broadcastLogs ?k ''[SYSTEM] Connected to WhatsApp'' w"
  show ?thesis
  proof (cases "getSession w ?k")
    case None
    then have "onOpen eid w = ?w1" by (simp add: onOpen_def Let_def)
    then show ?thesis by (simp add: quiet_same)
  next
    case (Some session)
    let ?w2 = "setSession ?k (session\<lparr>lastActivity := now ?w1\<rparr>) ?w1"
    let ?w3 = "?w2\<lparr>tasks := tasks ?w2 @
                 [\<lparr>t_key = ?k, t_targetNumber = e_targetNumber ?e,
                   t_targetType = e_targetType ?e, t_pc = Done\<rparr>]\<rparr>"
    have eq: "onOpen eid w = loopHead (length (tasks ?w2)) (e_messages ?e) ?w3"
      using Some by (simp add: onOpen_def Let_def)
    have "quiet k ?w3 (loopHead (length (tasks ?w2)) (e_messages ?e) ?w3)"
      by (rule quiet_loopHead) (simp_all add: isSending_def)
    then have "quiet k w (loopHead (length (tasks ?w2)) (e_messages ?e) ?w3)"
    proof (rule quiet_pre)
      show "getSession ?w3 k = getSession w k \<or>
            (\<exists>s t. getSession w k = Some s \<and> getSession ?w3 k = Some (s\<lparr>lastActivity := t\<rparr>))"
        using Some by auto
      show "inflight k ?w3 = inflight k w"
        by (simp add: inflight_def isSending_def)
      show "dequeued k ?w3 = dequeued k w"
        by simp
    qed
    with eq show ?thesis by simp
  qed
qed

lemma quiet_connectionUpdate: "quiet k w (connectionUpdate eid u w)"
proof (cases "handlersSet eid w")
  case False
  then show ?thesis by (simp add: connectionUpdate_def)
next
  case True
  define w1 where "w1 = (if u_qr u then broadcastLogs (e_key (engines w ! eid))
                ''[SYSTEM] Scan QR code to continue session'' w else w)"
  have pre: "getSession w1 k = getSession w k" "inflight k w1 = inflight k w"
    "dequeued k w1 = dequeued k w"
    by (simp_all add: w1_def)
  have eq: "connectionUpdate eid u w =
      (case u_connection u of
         Some ConnOpen \<Rightarrow> onOpen eid w1
       | Some ConnClose \<Rightarrow> onClose eid (u_statusCode u) w1
       | _ \<Rightarrow> w1)"
    using True unfolding connectionUpdate_def w1_def Let_def
    by (simp split: option.splits connection.splits)
  have "quiet k w1 (connectionUpdate eid u w)"
    unfolding eq
    by (simp add: quiet_onOpen quiet_onClose split: option.splits connection.splits)
  then show ?thesis
    by (rule quiet_pre) (simp_all add: pre)
qed

lemma quiet_reconnect: "quiet k w (reconnect eid w)"
  by (rule quiet_same) (simp_all add: reconnect_def Let_def split: phase.splits)

lemma quiet_reconnectTimer: "quiet k w (reconnectTimer eid w)"
proof (cases "handlersSet eid w \<and> timers (engines w ! eid) > 0")
  case False
  then show ?thesis by (auto simp add: reconnectTimer_def)
next
  case True
  let ?w1 = "putEngine eid ((engines w ! eid)\<lparr>timers := timers (engines w ! eid) - 1\<rparr>) w"
  have "quiet k ?w1 (reconnect eid ?w1)" by (rule quiet_reconnect)
  then have "quiet k w (reconnect eid ?w1)"
    by (rule quiet_pre) simp_all
  then show ?thesis using True by (simp add: reconnectTimer_def)
qed

lemma quiet_reconnectOk: "quiet k w (reconnectOk eid sock w)"
  by (rule quiet_same) (simp_all add: reconnectOk_def Let_def)

lemma quiet_reconnectFail: "quiet k w (reconnectFail eid msg w)"
  by (rule quiet_same) (simp_all add: reconnectFail_def Let_def)

lemma quiet_initOk: "quiet k w (initOk eid sock w)"
  by (rule quiet_same) (simp_all add: initOk_def Let_def)

lemma quiet_initFail: "quiet k w (initFail eid msg w)"
  by (rule quiet_flags)
    (auto simp add: initFail_def Let_def evolves_def split: option.splits)

lemma quiet_stopHandler: "stopHandler k' w = Inr w' \<Longrightarrow> quiet k w w'"
  by (rule quiet_flags)
    (auto simp add: stopHandler_def evolves_def split: option.splits)

lemma quiet_onMessage: "quiet k w (onMessage i m w)"
  by (rule quiet_same)
    (simp_all add: onMessage_def subscribe_def split: ws_message.splits option.splits)

lemma sendHandler_readers:
  assumes "sendHandler k' req w = Inr w'"
  shows "tasks w' = tasks w" "sendCalls w' = sendCalls w"
    "getSession w' k = (if k = k' then Some \<lparr>running = True, targetNumber = req_targetNumber req,
        targetType = req_targetType req, startTime = now w, sentCount = 0, failedCount = 0,
        lastActivity = now w\<rparr> else getSession w k)"
  using assms by (auto simp add: sendHandler_def Let_def split: option.splits)

lemma account_sendHandler: "sendHandler k' req w = Inr w' \<Longrightarrow> account k w w'"
  by (simp add: account_def counted_def inflight_def dequeued_def sendHandler_readers
      split: option.splits)

lemma quiet_sendHandler: "sendHandler k' req w = Inr w' \<Longrightarrow> k' \<noteq> k \<Longrightarrow> quiet k w w'"
  by (rule quiet_same) (simp_all add: sendHandler_readers)

section \<open>The sweep, entry by entry\<close>

lemma sweepEntry_fields [simp]:
  "tasks (sweepEntry en w) = tasks w"
  "sendCalls (sweepEntry en w) = sendCalls w"
  "now (sweepEntry en w) = now w"
  "engines (sweepEntry en w) = engines w"
  "clients (sweepEntry en w) = clients w"
  by (simp_all add: sweepEntry_def Let_def)

lemma getSession_sweepEntry:
  "getSession (sweepEntry en w) k =
     (if fst en = k \<and> stale w (snd en) then None else getSession w k)"
  by (auto simp add: sweepEntry_def Let_def getSession_def stale_def delete_conv')

lemma fold_sweepEntry_fields [simp]:
  "tasks (fold sweepEntry es w) = tasks w"
  "sendCalls (fold sweepEntry es w) = sendCalls w"
  "now (fold sweepEntry es w) = now w"
  "engines (fold sweepEntry es w) = engines w"
  "clients (fold sweepEntry es w) = clients w"
  by (induction es arbitrary: w) simp_all

lemma getSession_fold_sweepEntry:
  "getSession (fold sweepEntry es w) k =
     (if \<exists>s. (k, s) \<in> set es \<and> stale w s then None else getSession w k)"
proof (induction es arbitrary: w)
  case Nil
  then show ?case by simp
next
  case (Cons en es)
  have "stale (sweepEntry en w) = stale w"
    by (rule ext) (simp add: stale_def)
  then show ?case
    using Cons [of "sweepEntry en w"]
    by (cases en) (auto simp add: getSession_sweepEntry)
qed

lemma getSession_sweep_cases:
  "getSession (sweep w) k = None \<or> getSession (sweep w) k = getSession w k"
  by (simp add: sweep_def getSession_fold_sweepEntry)

lemma account_sweep: "account k w (sweep w)"
  using getSession_sweep_cases [of w k]
  by (auto simp add: account_def counted_def inflight_def dequeued_def sweep_def
      split: option.splits)

lemma lineage_sweep: "lineage k w (sweep w)"
  using getSession_sweep_cases [of w k]
  by (auto simp add: lineage_def split: option.splits)

section \<open>Every event\<close>

lemma step_quiet:
  assumes "\<not> creates k ev" "ev \<noteq> SweepTimer"
  shows "quiet k w (step ev w)"
proof (cases ev)
  case (PostSend key req)
  with assms show ?thesis
    by (auto simp add: creates_def quiet_sendHandler split: sum.splits)
next
  case (PostStop key)
  then show ?thesis
    by (auto simp add: quiet_stopHandler split: sum.splits)
next
  case SweepTimer
  with assms show ?thesis by simp
qed (simp_all add: quiet_same quiet_onMessage quiet_initOk quiet_initFail quiet_connectionUpdate
       quiet_sendResolved quiet_sendRejected quiet_delayElapsed quiet_reconnectTimer
       quiet_reconnectOk quiet_reconnectFail split: option.splits)

lemma step_account: "account k w (step ev w)"
proof (cases "ev = SweepTimer")
  case True
  then show ?thesis by (simp add: account_sweep)
next
  case False
  show ?thesis
  proof (cases "creates k ev")
    case False
    with \<open>ev \<noteq> SweepTimer\<close> show ?thesis using step_quiet [of k ev w] by (simp add: quiet_def)
  next
    case True
    then obtain req where "ev = PostSend k req"
      by (auto simp add: creates_def split: event.splits)
    then show ?thesis by (auto simp add: account_sendHandler split: sum.splits)
  qed
qed

lemma step_lineage: "\<not> creates k ev \<Longrightarrow> lineage k w (step ev w)"
  using step_quiet [of k ev w] lineage_sweep [of k w]
  by (cases "ev = SweepTimer") (auto simp add: quiet_def)

lemma step_persists:
  "ev \<noteq> SweepTimer \<Longrightarrow> getSession w k = Some s \<Longrightarrow> \<exists>s'. getSession (step ev w) k = Some s'"
proof (cases "creates k ev")
  case True
  assume "getSession w k = Some s"
  from True obtain req where ev: "ev = PostSend k req"
    by (auto simp add: creates_def split: event.splits)
  show ?thesis
  proof (cases "sendHandler k req w")
    case (Inl a)
    then show ?thesis using ev \<open>getSession w k = Some s\<close> by simp
  next
    case (Inr w')
    then show ?thesis using ev sendHandler_readers(3) [OF Inr, of k] by simp
  qed
next
  case False
  assume "ev \<noteq> SweepTimer" "getSession w k = Some s"
  with False show ?thesis
    using step_quiet [of k ev w] by (auto simp add: quiet_def split: option.splits)
qed

section \<open>The bound of the log buffer, event by event\<close>

lemma pushLog_le: "length logs \<le> 500 \<Longrightarrow> length (pushLog l logs) \<le> 500"
  by (simp add: pushLog_def Let_def)

lemma pushLog_full: "length logs = 500 \<Longrightarrow> pushLog l logs = tl logs @ [l]"
  by (cases logs) (simp_all add: pushLog_def Let_def)

lemma logs_ok_broadcastLogs: "logs_ok w \<Longrightarrow> logs_ok (broadcastLogs k m w)"
  by (auto simp add: logs_ok_def sessionLogs_broadcastLogs pushLog_le split: option.splits)

lemma logs_ok_prims [simp]:
  "logs_ok (setSession k s w) = logs_ok w"
  "logs_ok (removeDir k w) = logs_ok w"
  "logs_ok (closeConnection k w) = logs_ok w"
  "logs_ok (putEngine eid e w) = logs_ok w"
  "logs_ok (putTask i p w) = logs_ok w"
  "logs_ok (stopRunning k w) = logs_ok w"
  "logs_ok (scheduleReconnect eid w) = logs_ok w"
  by (simp_all add: logs_ok_def)

lemma logs_ok_upd [simp]:
  "logs_ok (w\<lparr>activeSessions := a\<rparr>) = logs_ok w"
  "logs_ok (w\<lparr>sessionConnections := b\<rparr>) = logs_ok w"
  "logs_ok (w\<lparr>clients := c\<rparr>) = logs_ok w"
  "logs_ok (w\<lparr>now := d\<rparr>) = logs_ok w"
  "logs_ok (w\<lparr>localeTime := e\<rparr>) = logs_ok w"
  "logs_ok (w\<lparr>engines := f\<rparr>) = logs_ok w"
  "logs_ok (w\<lparr>tasks := g\<rparr>) = logs_ok w"
  "logs_ok (w\<lparr>sendCalls := h\<rparr>) = logs_ok w"
  "logs_ok (w\<lparr>ended := i\<rparr>) = logs_ok w"
  "logs_ok (w\<lparr>rmCalls := j\<rparr>) = logs_ok w"
  by (simp_all add: logs_ok_def)

lemma logs_ok_broadcastLogs' [simp]: "logs_ok w \<Longrightarrow> logs_ok (broadcastLogs k m w)"
  by (rule logs_ok_broadcastLogs)

lemma logs_ok_set [simp]:
  "logs_ok w \<Longrightarrow> logs_ok (w\<lparr>sessionLogs := (sessionLogs w)(k \<mapsto> [])\<rparr>)"
  "logs_ok w \<Longrightarrow> logs_ok (w\<lparr>sessionLogs := (sessionLogs w)(k := None)\<rparr>)"
  by (simp_all add: logs_ok_def)

lemma logs_ok_completionCheck' [simp]: "logs_ok w \<Longrightarrow> logs_ok (completionCheck k w)"
  by (simp add: completionCheck_def)

lemma logs_ok_loopHead [simp]: "logs_ok w \<Longrightarrow> logs_ok (loopHead i rest w)"
  by (simp add: loopHead_def Let_def split: list.splits)

lemma logs_ok_sweepEntry: "logs_ok w \<Longrightarrow> logs_ok (sweepEntry en w)"
  by (simp add: sweepEntry_def Let_def logs_ok_def)

lemma logs_ok_sweep: "logs_ok w \<Longrightarrow> logs_ok (sweep w)"
proof -
  have "logs_ok w \<Longrightarrow> logs_ok (fold sweepEntry es w)" for es
    by (induction es arbitrary: w) (simp_all add: logs_ok_sweepEntry)
  then show "logs_ok w \<Longrightarrow> logs_ok (sweep w)" by (simp add: sweep_def)
qed

lemma logs_ok_step: "logs_ok w \<Longrightarrow> logs_ok (step ev w)"
proof (cases ev)
  case (PostSend key req)
  assume "logs_ok w"
  then show ?thesis using PostSend
    by (auto simp add: sendHandler_def Let_def logs_ok_def split: sum.splits option.splits)
next
  case (PostStop key)
  assume "logs_ok w"
  then show ?thesis using PostStop
    by (auto simp add: stopHandler_def split: sum.splits option.splits)
next
  case (ConnectionUpdate eid u)
  assume "logs_ok w"
  then show ?thesis using ConnectionUpdate
    by (simp add: connectionUpdate_def onOpen_def onClose_def Let_def
        split: option.splits connection.splits)
qed (simp_all add: logs_ok_sweep onMessage_def subscribe_def initOk_def initFail_def
      sendResolved_def sendRejected_def delayElapsed_def reconnectTimer_def reconnect_def
      reconnectOk_def reconnectFail_def Let_def
      split: option.splits ws_message.splits pc.splits phase.splits)

section \<open>The bound of the reconnect counter, event by event\<close>

lemma attempts_ok_prims [simp]:
  "attempts_ok (setSession k s w) = attempts_ok w"
  "attempts_ok (removeDir k w) = attempts_ok w"
  "attempts_ok (closeConnection k w) = attempts_ok w"
  "attempts_ok (broadcastLogs k m w) = attempts_ok w"
  "attempts_ok (putTask i p w) = attempts_ok w"
  "attempts_ok (stopRunning k w) = attempts_ok w"
  "attempts_ok (completionCheck k w) = attempts_ok w"
  "attempts_ok (sweep w) = attempts_ok w"
  by (simp_all add: attempts_ok_def sweep_def)

lemma attempts_ok_upd [simp]:
  "attempts_ok (w\<lparr>activeSessions := a\<rparr>) = attempts_ok w"
  "attempts_ok (w\<lparr>sessionConnections := b\<rparr>) = attempts_ok w"
  "attempts_ok (w\<lparr>clients := c\<rparr>) = attempts_ok w"
  "attempts_ok (w\<lparr>now := d\<rparr>) = attempts_ok w"
  "attempts_ok (w\<lparr>localeTime := e\<rparr>) = attempts_ok w"
  "attempts_ok (w\<lparr>sessionLogs := f\<rparr>) = attempts_ok w"
  "attempts_ok (w\<lparr>tasks := g\<rparr>) = attempts_ok w"
  "attempts_ok (w\<lparr>sendCalls := h\<rparr>) = attempts_ok w"
  "attempts_ok (w\<lparr>ended := i\<rparr>) = attempts_ok w"
  "attempts_ok (w\<lparr>rmCalls := j\<rparr>) = attempts_ok w"
  by (simp_all add: attempts_ok_def)

lemma list_all_update: "list_all P xs \<Longrightarrow> P y \<Longrightarrow> list_all P (xs[i := y])"
  by (induction xs arbitrary: i) (auto split: nat.splits)

lemma attempts_ok_putEngine [simp]:
  "attempts_ok w \<Longrightarrow> reconnectAttempts e \<le> maxReconnectAttempts \<Longrightarrow> attempts_ok (putEngine eid e w)"
  by (simp add: attempts_ok_def list_all_update)

lemma attempts_ok_nth:
  "attempts_ok w \<Longrightarrow> eid < length (engines w) \<Longrightarrow>
     reconnectAttempts (engines w ! eid) \<le> maxReconnectAttempts"
  by (simp add: attempts_ok_def list_all_length)

lemma attempts_ok_loopHead [simp]: "attempts_ok (loopHead i rest w) = attempts_ok w"
  by (simp add: loopHead_def Let_def split: list.splits)

lemma attempts_ok_step: "attempts_ok w \<Longrightarrow> attempts_ok (step ev w)"
proof (cases ev)
  case (PostSend key req)
  assume "attempts_ok w"
  then show ?thesis using PostSend
    by (auto simp add: sendHandler_def Let_def attempts_ok_def split: sum.splits option.splits)
next
  case (PostStop key)
  assume "attempts_ok w"
  then show ?thesis using PostStop
    by (auto simp add: stopHandler_def split: sum.splits option.splits)
next
  case (ConnectionUpdate eid u)
  assume "attempts_ok w"
  then show ?thesis using ConnectionUpdate
    by (auto simp add: connectionUpdate_def onOpen_def onClose_def Let_def scheduleReconnect_def
        handlersSet_def attempts_ok_nth
        split: option.splits connection.splits)
next
  case (ReconnectTimer eid)
  assume "attempts_ok w"
  then show ?thesis using ReconnectTimer
    by (auto simp add: reconnectTimer_def reconnect_def Let_def handlersSet_def attempts_ok_nth
        split: phase.splits)
qed (auto simp add: onMessage_def subscribe_def initOk_def initFail_def
      sendResolved_def sendRejected_def delayElapsed_def
      reconnectOk_def reconnectFail_def Let_def handlersSet_def attempts_ok_nth
      split: option.splits ws_message.splits pc.splits phase.splits)

section \<open>The keys of the session map stay distinct\<close>

lemma keys_ok_prims [simp]:
  "keys_ok (removeDir k w) = keys_ok w"
  "keys_ok (closeConnection k w) = keys_ok w"
  "keys_ok (broadcastLogs k m w) = keys_ok w"
  "keys_ok (putTask i p w) = keys_ok w"
  "keys_ok (putEngine eid e w) = keys_ok w"
  "keys_ok (scheduleReconnect eid w) = keys_ok w"
  by (simp_all add: keys_ok_def)

lemma keys_ok_upd [simp]:
  "keys_ok (w\<lparr>engines := a\<rparr>) = keys_ok w"
  "keys_ok (w\<lparr>sessionConnections := b\<rparr>) = keys_ok w"
  "keys_ok (w\<lparr>clients := c\<rparr>) = keys_ok w"
  "keys_ok (w\<lparr>now := d\<rparr>) = keys_ok w"
  "keys_ok (w\<lparr>localeTime := e\<rparr>) = keys_ok w"
  "keys_ok (w\<lparr>sessionLogs := f\<rparr>) = keys_ok w"
  "keys_ok (w\<lparr>tasks := g\<rparr>) = keys_ok w"
  "keys_ok (w\<lparr>sendCalls := h\<rparr>) = keys_ok w"
  "keys_ok (w\<lparr>ended := i\<rparr>) = keys_ok w"
  "keys_ok (w\<lparr>rmCalls := j\<rparr>) = keys_ok w"
  by (simp_all add: keys_ok_def)

lemma keys_ok_setSession [simp]: "keys_ok w \<Longrightarrow> keys_ok (setSession k s w)"
  by (simp add: keys_ok_def setSession_def distinct_update)

lemma keys_ok_stopRunning [simp]: "keys_ok w \<Longrightarrow> keys_ok (stopRunning k w)"
  by (simp add: stopRunning_def split: option.splits)

lemma keys_ok_completionCheck [simp]: "keys_ok w \<Longrightarrow> keys_ok (completionCheck k w)"
  by (simp add: completionCheck_def)

lemma keys_ok_loopHead [simp]: "keys_ok w \<Longrightarrow> keys_ok (loopHead i rest w)"
  by (simp add: loopHead_def Let_def split: list.splits)

lemma keys_ok_sweepEntry: "keys_ok w \<Longrightarrow> keys_ok (sweepEntry en w)"
  by (simp add: sweepEntry_def Let_def keys_ok_def distinct_delete)

lemma keys_ok_sweep: "keys_ok w \<Longrightarrow> keys_ok (sweep w)"
proof -
  have "keys_ok w \<Longrightarrow> keys_ok (fold sweepEntry es w)" for es
    by (induction es arbitrary: w) (simp_all add: keys_ok_sweepEntry)
  then show "keys_ok w \<Longrightarrow> keys_ok (sweep w)" by (simp add: sweep_def)
qed

lemma keys_ok_step: "keys_ok w \<Longrightarrow> keys_ok (step ev w)"
proof (cases ev)
  case (PostSend key req)
  assume "keys_ok w"
  then show ?thesis using PostSend
    by (auto simp add: sendHandler_def Let_def split: sum.splits option.splits)
next
  case (PostStop key)
  assume "keys_ok w"
  then show ?thesis using PostStop
    by (auto simp add: stopHandler_def split: sum.splits option.splits)
next
  case (ConnectionUpdate eid u)
  assume "keys_ok w"
  then show ?thesis using ConnectionUpdate
    by (simp add: connectionUpdate_def onOpen_def onClose_def Let_def
        split: option.splits connection.splits)
qed (simp_all add: keys_ok_sweep onMessage_def subscribe_def initOk_def initFail_def
      sendResolved_def sendRejected_def delayElapsed_def reconnectTimer_def reconnect_def
      reconnectOk_def reconnectFail_def Let_def
      split: option.splits ws_message.splits pc.splits phase.splits)

section \<open>Runs of events\<close>

lemma run_Nil [simp]: "run [] w = w"
  by (simp add: run_def)

lemma run_Cons [simp]: "run (ev # evs) w = run evs (step ev w)"
  by (simp add: run_def)

lemma run_append: "run (evs @ evs') w = run evs' (run evs w)"
  by (simp add: run_def)

lemma run_lineage: "\<forall>ev\<in>set evs. \<not> creates k ev \<Longrightarrow> lineage k w (run evs w)"
proof (induction evs arbitrary: w)
  case Nil
  then show ?case by simp
next
  case (Cons ev evs)
  then have "lineage k w (step ev w)" "lineage k (step ev w) (run evs (step ev w))"
    by (simp_all add: step_lineage)
  then show ?case by (simp add: lineage_trans [of k w "step ev w"])
qed

lemma balanced_step: "balanced k w \<Longrightarrow> balanced k (step ev w)"
  using step_account [of k w ev] by (simp add: balanced_def account_def)

lemma balanced_run: "balanced k w \<Longrightarrow> balanced k (run evs w)"
  by (induction evs arbitrary: w) (simp_all add: balanced_step)

lemma balanced_boot: "balanced k boot"
  by (simp add: balanced_def counted_def inflight_def dequeued_def boot_def getSession_def)

lemma halted_step:
  assumes "halted k c d w" "\<not> creates k ev"
  shows "halted k c d (step ev w)"
proof -
  have "\<not> isRunning (step ev w) k"
    using assms step_lineage [of k ev w]
    by (auto simp add: halted_def lineage_def isRunning_def evolves_def split: option.splits)
  then show ?thesis
    using assms(1) step_account [of k w ev] by (auto simp add: halted_def account_def)
qed

lemma halted_run: "halted k c d w \<Longrightarrow> \<forall>ev\<in>set evs. \<not> creates k ev \<Longrightarrow> halted k c d (run evs w)"
  by (induction evs arbitrary: w) (simp_all add: halted_step)

lemma stopHandler_readers:
  assumes "stopHandler k w = Inr w'"
  shows "\<exists>s. getSession w k = Some s \<and> getSession w' k = Some (s\<lparr>running := False\<rparr>)"
    "k' \<noteq> k \<Longrightarrow> getSession w' k' = getSession w k'"
    "tasks w' = tasks w" "sendCalls w' = sendCalls w" "engines w' = engines w"
    "sessionConnections w' = (sessionConnections w)(k := None)"
    "rmCalls w' = rmCalls w @ [k]"
    "sessionLogs w' = (sessionLogs w)(k \<mapsto> pushLog (logLine (localeTime w)
        ''[SYSTEM] Session stopped by user'') (case sessionLogs w k of None \<Rightarrow> [] | Some l \<Rightarrow> l))"
  using assms
  by (auto simp add: stopHandler_def sessionLogs_broadcastLogs split: option.splits)

lemma run_persists:
  "SweepTimer \<notin> set evs \<Longrightarrow> getSession w k = Some s \<Longrightarrow> \<exists>s'. getSession (run evs w) k = Some s'"
proof (induction evs arbitrary: w s)
  case Nil
  then show ?case by simp
next
  case (Cons ev evs)
  then obtain s1 where "getSession (step ev w) k = Some s1"
    using step_persists [of ev w k s] by auto
  with Cons show ?case by auto
qed

lemma logs_ok_run: "logs_ok w \<Longrightarrow> logs_ok (run evs w)"
  by (induction evs arbitrary: w) (simp_all add: logs_ok_step)

lemma logs_ok_boot: "logs_ok boot"
  by (simp add: logs_ok_def boot_def)

lemma keys_ok_run: "keys_ok w \<Longrightarrow> keys_ok (run evs w)"
  by (induction evs arbitrary: w) (simp_all add: keys_ok_step)

lemma keys_ok_boot: "keys_ok boot"
  by (simp add: keys_ok_def boot_def)

lemma getSession_sweep:
  assumes "keys_ok w"
  shows "getSession (sweep w) k =
     (case getSession w k of
        None \<Rightarrow> None
      | Some s \<Rightarrow> if \<not> running s \<and> now w - lastActivity s > 3600000 then None else Some s)"
proof -
  have "(k, s) \<in> set (activeSessions w) \<longleftrightarrow> getSession w k = Some s" for s
    using assms by (simp add: keys_ok_def getSession_def)
  then show ?thesis
    by (auto simp add: sweep_def getSession_fold_sweepEntry stale_def split: option.splits)
qed

lemma attempts_ok_run: "attempts_ok w \<Longrightarrow> attempts_ok (run evs w)"
  by (induction evs arbitrary: w) (simp_all add: attempts_ok_step)

lemma attempts_ok_boot: "attempts_ok boot"
  by (simp add: attempts_ok_def boot_def)

section \<open>Who is subscribed, event by event\<close>

lemma sessionKey_notify [simp]: "sessionKey (notify k m c) = sessionKey c"
  by (simp add: notify_def)

lemma unsubscribed_prims [simp]:
  "unsubscribed i key (setSession k s w) = unsubscribed i key w"
  "unsubscribed i key (removeDir k w) = unsubscribed i key w"
  "unsubscribed i key (closeConnection k w) = unsubscribed i key w"
  "unsubscribed i key (broadcastLogs k m w) = unsubscribed i key w"
  "unsubscribed i key (putTask j p w) = unsubscribed i key w"
  "unsubscribed i key (putEngine eid e w) = unsubscribed i key w"
  "unsubscribed i key (stopRunning k w) = unsubscribed i key w"
  "unsubscribed i key (scheduleReconnect eid w) = unsubscribed i key w"
  "unsubscribed i key (completionCheck k w) = unsubscribed i key w"
  "unsubscribed i key (sweep w) = unsubscribed i key w"
  by (simp_all add: unsubscribed_def clients_broadcastLogs sweep_def split: option.splits)

lemma unsubscribed_upd [simp]:
  "unsubscribed i key (w\<lparr>activeSessions := a\<rparr>) = unsubscribed i key w"
  "unsubscribed i key (w\<lparr>sessionConnections := b\<rparr>) = unsubscribed i key w"
  "unsubscribed i key (w\<lparr>engines := c\<rparr>) = unsubscribed i key w"
  "unsubscribed i key (w\<lparr>now := d\<rparr>) = unsubscribed i key w"
  "unsubscribed i key (w\<lparr>localeTime := e\<rparr>) = unsubscribed i key w"
  "unsubscribed i key (w\<lparr>sessionLogs := f\<rparr>) = unsubscribed i key w"
  "unsubscribed i key (w\<lparr>tasks := g\<rparr>) = unsubscribed i key w"
  "unsubscribed i key (w\<lparr>sendCalls := h\<rparr>) = unsubscribed i key w"
  "unsubscribed i key (w\<lparr>ended := x\<rparr>) = unsubscribed i key w"
  "unsubscribed i key (w\<lparr>rmCalls := j\<rparr>) = unsubscribed i key w"
  by (simp_all add: unsubscribed_def)

lemma unsubscribed_loopHead [simp]: "unsubscribed i key (loopHead j rest w) = unsubscribed i key w"
  by (simp add: loopHead_def Let_def split: list.splits)

lemma unsubscribed_step:
  assumes "unsubscribed i key w" "ev \<noteq> WsMessage i (Subscribe key)"
  shows "unsubscribed i key (step ev w)"
proof (cases ev)
  case (PostSend k req)
  with assms show ?thesis
    by (auto simp add: sendHandler_def Let_def split: sum.splits option.splits)
next
  case (PostStop k)
  with assms show ?thesis
    by (auto simp add: stopHandler_def split: sum.splits option.splits)
next
  case (ConnectionUpdate eid u)
  with assms show ?thesis
    by (simp add: connectionUpdate_def onOpen_def onClose_def Let_def
        split: option.splits connection.splits)
next
  case (WsMessage j m)
  with assms show ?thesis
    by (auto simp add: onMessage_def subscribe_def unsubscribed_def
        split: ws_message.splits option.splits)
next
  case (WsConnect j)
  with assms show ?thesis by (auto simp add: unsubscribed_def split: option.splits)
next
  case (WsReadyState j rs)
  with assms show ?thesis by (auto simp add: unsubscribed_def split: option.splits)
next
  case (WsClose j)
  with assms show ?thesis by (auto simp add: unsubscribed_def split: option.splits)
qed (use assms in \<open>simp_all add: initOk_def initFail_def
      sendResolved_def sendRejected_def delayElapsed_def reconnectTimer_def reconnect_def
      reconnectOk_def reconnectFail_def Let_def
      split: option.splits pc.splits phase.splits\<close>)

lemma unsubscribed_run:
  "unsubscribed i key w \<Longrightarrow> \<forall>ev\<in>set evs. ev \<noteq> WsMessage i (Subscribe key)
     \<Longrightarrow> unsubscribed i key (run evs w)"
  by (induction evs arbitrary: w) (simp_all add: unsubscribed_step)

section \<open>Reconnects in a row\<close>

lemma poised_started: "poised 0 0 (run started boot)"
  unfolding poised_def by code_simp

lemma ended_started: "ended (run started boot) = []"
  by code_simp

lemma handlersSet_prims [simp]:
  "handlersSet eid (broadcastLogs k m w) = handlersSet eid w"
  "handlersSet eid (w\<lparr>sessionConnections := c\<rparr>) = handlersSet eid w"
  "handlersSet eid (w\<lparr>ended := x\<rparr>) = handlersSet eid w"
  by (simp_all add: handlersSet_def)

lemma handlersSet_putEngine:
  "handlersSet eid w \<Longrightarrow> e_phase e = e_phase (engines w ! eid) \<Longrightarrow> handlersSet eid (putEngine eid e w)"
  by (simp add: handlersSet_def)

lemma reconnect_cycle_poised:
  assumes "poised 0 0 w"
  shows "poised 0 0 (run reconnect_cycle w) \<and>
         length (ended (run reconnect_cycle w)) = Suc (length (ended w))"
  using assms
  by (auto simp add: poised_def reconnect_cycle_def conn_closed_def connectionUpdate_def onClose_def
      scheduleReconnect_def reconnectTimer_def reconnect_def reconnectOk_def Let_def
      handlersSet_def maxReconnectAttempts_def split: phase.splits)

lemma reconnect_cycles_poised:
  "poised 0 0 w \<Longrightarrow>
     poised 0 0 (run (concat (replicate n reconnect_cycle)) w) \<and>
     length (ended (run (concat (replicate n reconnect_cycle)) w)) = length (ended w) + n"
proof (induction n arbitrary: w)
  case 0
  then show ?case by simp
next
  case (Suc n)
  from reconnect_cycle_poised [OF Suc.prems] Suc.IH [of "run reconnect_cycle w"]
  show ?case by (simp add: run_append)
qed

lemma failing_cycle_poised:
  assumes "poised a 1 w" "a < 15"
  shows "poised (Suc a) 1 (run failing_cycle w)"
  using assms
  by (auto simp add: poised_def failing_cycle_def reconnectTimer_def reconnect_def reconnectFail_def
      Let_def handlersSet_def maxReconnectAttempts_def split: phase.splits)

lemma failing_cycles_poised:
  "poised a 1 w \<Longrightarrow> a + n \<le> 15 \<Longrightarrow> poised (a + n) 1 (run (concat (replicate n failing_cycle)) w)"
proof (induction n arbitrary: a w)
  case 0
  then show ?case by simp
next
  case (Suc n)
  from Suc.prems have "poised (Suc a) 1 (run failing_cycle w)"
    using failing_cycle_poised [of a w] by simp
  from Suc.IH [OF this] Suc.prems show ?case by (simp add: run_append)
qed

lemma poised_closed: "poised 0 0 w \<Longrightarrow> poised 0 1 (step (ConnectionUpdate 0 (conn_closed None)) w)"
  by (auto simp add: poised_def conn_closed_def connectionUpdate_def onClose_def
      scheduleReconnect_def Let_def handlersSet_def)

lemma poised_exhausted:
  "poised 15 1 w \<Longrightarrow> poised 15 0 (step (ReconnectTimer 0) w) \<and>
      ended (step (ReconnectTimer 0) w) = ended w \<and>
      sessionLogs (step (ReconnectTimer 0) w) = sessionLogs w"
  by (auto simp add: poised_def reconnectTimer_def reconnect_def
      Let_def handlersSet_def maxReconnectAttempts_def)

section \<open>Counting the attempts of an engine\<close>

lemma nth_update_at:
  "eid < length xs \<Longrightarrow> xs[e := y] ! eid = (if e = eid then y else xs ! eid)"
  by (cases "e = eid") simp_all

lemma engines_loopHead [simp]: "engines (loopHead i rest w) = engines w"
  by (simp add: loopHead_def Let_def split: list.splits)

lemma engines_sweep [simp]: "engines (sweep w) = engines w"
  by (simp add: sweep_def)

lemma reconnect_guard:
  assumes "eid < length (engines w)"
  shows "(attempted eid w (reconnect eid w) \<longleftrightarrow>
            isRunning w (e_key (engines w ! eid)) \<and> reconnectAttempts (engines w ! eid) < 15) \<and>
         reconnectAttempts (engines (reconnect eid w) ! eid)
           = reconnectAttempts (engines w ! eid) + (if attempted eid w (reconnect eid w) then 1 else 0)"
  using assms
  by (auto simp add: reconnect_def attempted_def maxReconnectAttempts_def Let_def split: phase.splits)

lemma step_counts_attempt:
  assumes "eid < length (engines w)" "\<not> goes_through eid ev"
  shows "eid < length (engines (step ev w)) \<and>
         reconnectAttempts (engines (step ev w) ! eid)
           = reconnectAttempts (engines w ! eid) + (if attempted eid w (step ev w) then 1 else 0)"
proof (cases ev)
  case (PostSend key req)
  with assms show ?thesis
    by (auto simp add: sendHandler_def Let_def attempted_def nth_append split: sum.splits option.splits)
next
  case (PostStop key)
  with assms show ?thesis
    by (auto simp add: attempted_def stopHandler_readers(5) split: sum.splits)
next
  case (ConnectionUpdate e u)
  with assms show ?thesis
    by (auto simp add: connectionUpdate_def onOpen_def onClose_def Let_def scheduleReconnect_def
        attempted_def nth_update_at split: option.splits connection.splits)
next
  case (ReconnectTimer e)
  with assms show ?thesis
    by (auto simp add: reconnectTimer_def reconnect_def Let_def attempted_def nth_update_at
        maxReconnectAttempts_def split: phase.splits)
next
  case (ReconnectOk e sock)
  with assms show ?thesis
    by (auto simp add: reconnectOk_def Let_def attempted_def nth_update_at goes_through_def)
next
  case (ReconnectFail e msg)
  with assms show ?thesis
    by (auto simp add: reconnectFail_def Let_def attempted_def nth_update_at)
qed (use assms in \<open>auto simp add: onMessage_def subscribe_def initOk_def initFail_def
      sendResolved_def sendRejected_def delayElapsed_def attempted_def nth_update_at Let_def
      split: option.splits ws_message.splits pc.splits\<close>)

lemma run_counts_attempts:
  "eid < length (engines w) \<Longrightarrow> \<forall>ev\<in>set evs. \<not> goes_through eid ev \<Longrightarrow>
     eid < length (engines (run evs w)) \<and>
     reconnectAttempts (engines (run evs w) ! eid)
       = reconnectAttempts (engines w ! eid) + attempts_in eid evs w"
proof (induction evs arbitrary: w)
  case Nil
  then show ?case by simp
next
  case (Cons ev evs)
  from Cons.prems have s: "eid < length (engines (step ev w))"
    "reconnectAttempts (engines (step ev w) ! eid)
       = reconnectAttempts (engines w ! eid) + (if attempted eid w (step ev w) then 1 else 0)"
    using step_counts_attempt [of eid w ev] by simp_all
  from Cons.IH [OF s(1)] Cons.prems s(2) show ?case by simp
qed

lemma attempts_bound:
  assumes "eid < length (engines (run evs0 boot))" "\<forall>ev\<in>set evs. \<not> goes_through eid ev"
  shows "reconnectAttempts (engines (run evs0 boot) ! eid) + attempts_in eid evs (run evs0 boot) \<le> 15"
proof -
  from run_counts_attempts [OF assms]
  have l: "eid < length (engines (run evs (run evs0 boot)))"
    and e: "reconnectAttempts (engines (run evs (run evs0 boot)) ! eid)
       = reconnectAttempts (engines (run evs0 boot) ! eid) + attempts_in eid evs (run evs0 boot)"
    by simp_all
  have "attempts_ok (run (evs0 @ evs) boot)"
    by (rule attempts_ok_run [OF attempts_ok_boot])
  then have "reconnectAttempts (engines (run evs (run evs0 boot)) ! eid) \<le> 15"
    using l attempts_ok_nth [of "run (evs0 @ evs) boot" eid]
    by (simp add: run_append maxReconnectAttempts_def)
  with e show ?thesis by simp
qed

section \<open>The message queue\<close>

lemma prefixed_not_empty: "prefixed hatersName line \<noteq> []"
  by (simp add: prefixed_def)

text \<open>
  The filter of \<^verbatim>\<open>messages\<close> never drops a line: every line it sees starts with the
  prefix and a space.
\<close>

lemma build_messages_keeps_all:
  "build_messages hatersName payload = map (prefixed hatersName) (split_lines payload)"
  by (simp add: build_messages_def prefixed_not_empty)

text \<open>
  C1. The payload \<^verbatim>\<open>"a\nb\n\nc"\<close> with prefix \<^verbatim>\<open>"X"\<close>: the claim says the queue is
  \<^verbatim>\<open>["X a", "X b", "X c"]\<close>, the blank line dropped. The code maps before it filters, so
  the blank line has become \<^verbatim>\<open>"X "\<close> when the filter sees it, and the queue has four
  entries.
\<close>

theorem build_messages_blank_line:
  "build_messages ''X'' [CHR ''a'', newline, CHR ''b'', newline, newline, CHR ''c'']
     = [''X a'', ''X b'', ''X '', ''X c'']
   \<and> build_messages ''X'' [CHR ''a'', newline, CHR ''b'', newline, newline, CHR ''c'']
     \<noteq> [''X a'', ''X b'', ''X c'']"
  by (simp add: build_messages_def prefixed_def trim_def isWhiteSpace_def newline_def)

section \<open>A connection error on the third send\<close>

text \<open>
  Whenever the loop breaks after a connection error while the session is running, the
  completion check sets \<^verbatim>\<open>running\<close> to false, and no engine gets a timer.
\<close>

lemma break_marks_completed:
  assumes "i < length (tasks w)" and "t_pc (tasks w ! i) = Delaying True rest"
    and "getSession w (t_key (tasks w ! i)) = Some s" and "running s"
  shows "getSession (delayElapsed i w) (t_key (tasks w ! i)) = Some (s\<lparr>running := False\<rparr>) \<and>
         engines (delayElapsed i w) = engines w"
  using assms
  by (simp add: delayElapsed_def getSession_completionCheck isRunning_def)

text \<open>
  C2. Three messages are queued, two sends succeed and the third is rejected with
  \<^verbatim>\<open>connection lost\<close>. When the rejection has been handled the counters are 2 and 1
  and the session still runs, the loop waiting five seconds before its \<^verbatim>\<open>break\<close>. After
  the \<^verbatim>\<open>break\<close> the completion check finds the session running and treats the queue
  as exhausted: it logs the completion, sets \<^verbatim>\<open>running\<close> to false and closes and
  forgets the connection. No reconnect timer is pending, and the close event that
  follows is logged as permanent and sets none: the session is completed, not awaiting
  a reconnect as the claim says.
\<close>

theorem third_send_connection_error:
  "getSession (run third_fails boot) ''k'' = Some (session_k True 2 1) \<and>
   map t_pc (tasks (run third_fails boot)) = [Delaying True []] \<and>
   getSession (run (third_fails @ [DelayElapsed 0]) boot) ''k'' = Some (session_k False 2 1) \<and>
   map_option last (sessionLogs (run (third_fails @ [DelayElapsed 0]) boot) ''k'')
     = Some ''[09:00:00] [SYSTEM] Message sending completed'' \<and>
   sessionConnections (run (third_fails @ [DelayElapsed 0]) boot) ''k'' = None \<and>
   ended (run (third_fails @ [DelayElapsed 0]) boot) = [1] \<and>
   map timers (engines (run (third_fails @ [DelayElapsed 0]) boot)) = [0] \<and>
   map timers (engines (run (third_fails @ [DelayElapsed 0, ConnectionUpdate 0 (conn_closed None)])
      boot)) = [0] \<and>
   map_option last
     (sessionLogs (run (third_fails @ [DelayElapsed 0, ConnectionUpdate 0 (conn_closed None)]) boot)
        ''k'')
     = Some ''[09:00:00] [ERROR] Connection closed permanently''"
  by code_simp

section \<open>The bound on reconnects\<close>

text \<open>
  C3, as the code has it. \<^verbatim>\<open>reconnect\<close> makes an attempt exactly when the session is
  running and \<^verbatim>\<open>reconnectAttempts\<close> is below 15; an attempt adds one to the counter, a
  call that makes none leaves the counter as it is, and a reconnect that goes through
  sets the counter to 0. In every state the server can reach, and over every sequence
  of events that follows in which no reconnect of the engine goes through, the counter
  and the attempts made since together are at most 15. So the bound is on the attempts
  since the last reconnect that went through, not on those of the session.
\<close>

theorem reconnect_attempts_bounded:
  "(eid < length (engines (run evs0 boot)) \<and> (\<forall>ev\<in>set evs. \<not> goes_through eid ev) \<longrightarrow>
      reconnectAttempts (engines (run evs0 boot) ! eid) + attempts_in eid evs (run evs0 boot) \<le> 15) \<and>
   (eid < length (engines w) \<longrightarrow>
      (attempted eid w (reconnect eid w) \<longleftrightarrow>
         isRunning w (e_key (engines w ! eid)) \<and> reconnectAttempts (engines w ! eid) < 15) \<and>
      reconnectAttempts (engines (reconnect eid w) ! eid)
        = reconnectAttempts (engines w ! eid) + (if attempted eid w (reconnect eid w) then 1 else 0)) \<and>
   (handlersSet eid w \<and> reconnecting (engines w ! eid) > 0 \<longrightarrow>
      reconnectAttempts (engines (reconnectOk eid newSock w) ! eid) = 0)"
proof (intro conjI impI)
  assume "eid < length (engines (run evs0 boot)) \<and> (\<forall>ev\<in>set evs. \<not> goes_through eid ev)"
  then show "reconnectAttempts (engines (run evs0 boot) ! eid)
      + attempts_in eid evs (run evs0 boot) \<le> 15"
    by (simp add: attempts_bound)
next
  assume "eid < length (engines w)"
  then show "attempted eid w (reconnect eid w) \<longleftrightarrow>
         isRunning w (e_key (engines w ! eid)) \<and> reconnectAttempts (engines w ! eid) < 15"
    by (simp add: reconnect_guard)
next
  assume "eid < length (engines w)"
  then show "reconnectAttempts (engines (reconnect eid w) ! eid)
        = reconnectAttempts (engines w ! eid) + (if attempted eid w (reconnect eid w) then 1 else 0)"
    using reconnect_guard [of eid w] by blast
next
  assume "handlersSet eid w \<and> reconnecting (engines w ! eid) > 0"
  then show "reconnectAttempts (engines (reconnectOk eid newSock w) ! eid) = 0"
    by (simp add: reconnectOk_def handlersSet_def Let_def)
qed

text \<open>
  The theorem at work: the connection closes and fifteen reconnects fail in a row.
  Fifteen attempts have been made and the counter is 15; the call of \<^verbatim>\<open>reconnect\<close> by
  the next timer makes no attempt and leaves the counter at 15.
\<close>

theorem reconnect_attempts_bounded_witness:
  "reconnectAttempts (engines (run (failures 15) boot) ! 0) = 15 \<and>
   \<not> attempted 0 (run (failures 15) boot) (reconnect 0 (run (failures 15) boot)) \<and>
   reconnectAttempts (engines (reconnect 0 (run (failures 15) boot)) ! 0) = 15 \<and>
   attempts_in 0 (concat (replicate 15 failing_cycle) @ [ReconnectTimer 0])
      (run (started @ [ConnectionUpdate 0 (conn_closed None)]) boot) = 15"
proof -
  let ?w0 = "run (started @ [ConnectionUpdate 0 (conn_closed None)]) boot"
  let ?evs = "concat (replicate 15 failing_cycle) @ [ReconnectTimer 0]"
  have p0: "poised 0 1 ?w0"
    using poised_closed [OF poised_started] by (simp add: run_append)
  have p: "poised 15 1 (run (failures 15) boot)"
    using failing_cycles_poised [OF poised_closed [OF poised_started], of 15]
    by (simp add: failures_def run_append)
  then have a: "reconnectAttempts (engines (run (failures 15) boot) ! 0) = 15"
    and l: "0 < length (engines (run (failures 15) boot))"
    by (simp_all add: poised_def handlersSet_def)
  have l0: "0 < length (engines ?w0)" and a0: "reconnectAttempts (engines ?w0 ! 0) = 0"
    using p0 by (simp_all add: poised_def handlersSet_def)
  have g: "\<forall>ev\<in>set ?evs. \<not> goes_through 0 ev"
    by (auto simp add: failing_cycle_def goes_through_def)
  have "poised 15 0 (run (failures 15 @ [ReconnectTimer 0]) boot)"
    using p poised_exhausted by (simp add: run_append)
  then have "reconnectAttempts (engines (run ?evs ?w0) ! 0) = 15"
    by (simp add: failures_def run_append poised_def)
  with run_counts_attempts [OF l0 g] a0
  have n: "attempts_in 0 ?evs ?w0 = 15" by simp
  from reconnect_attempts_bounded [of 0 "started @ [ConnectionUpdate 0 (conn_closed None)]" ?evs
      "run (failures 15) boot"] a l l0 g n
  show ?thesis by simp
qed

text \<open>
  C3 as stated fails twice. A session whose connection closes sixteen times, each
  reconnect going through, makes sixteen attempts (each one calls \<^verbatim>\<open>end\<close> on the
  socket) and still runs. And after fifteen failed reconnects in a row the next timer
  finds the counter at 15 and returns: no timer is pending any more, and the session
  is still marked running.
\<close>

theorem sixteen_reconnects_still_running:
  "length (ended (run (reconnects 16) boot)) = 16 \<and>
   isRunning (run (reconnects 16) boot) ''k'' \<and>
   reconnectAttempts (engines (run (failures 15 @ [ReconnectTimer 0]) boot) ! 0) = 15 \<and>
   timers (engines (run (failures 15 @ [ReconnectTimer 0]) boot) ! 0) = 0 \<and>
   isRunning (run (failures 15 @ [ReconnectTimer 0]) boot) ''k''"
proof -
  have "poised 0 0 (run (reconnects 16) boot) \<and> length (ended (run (reconnects 16) boot)) = 16"
    using reconnect_cycles_poised [OF poised_started, of 16]
    by (simp add: reconnects_def run_append ended_started)
  moreover have "poised 15 1 (run (failures 15) boot)"
    using failing_cycles_poised [OF poised_closed [OF poised_started], of 15]
    by (simp add: failures_def run_append)
  then have "poised 15 0 (run (failures 15 @ [ReconnectTimer 0]) boot)"
    using poised_exhausted by (simp add: run_append)
  ultimately show ?thesis by (simp add: poised_def)
qed

section \<open>A close with status 401\<close>

text \<open>
  In every state, a close with status code 401 leaves the session map and the engines
  as they are.
\<close>

lemma close_401_changes_no_session:
  "getSession (connectionUpdate eid (conn_closed (Some 401)) w) = getSession w \<and>
   engines (connectionUpdate eid (conn_closed (Some 401)) w) = engines w"
  by (simp add: connectionUpdate_def conn_closed_def onClose_def Let_def)

text \<open>
  C4. The connection of a running session closes with status code 401. The handler
  sets no reconnect timer and logs \<^verbatim>\<open>[ERROR] Connection closed permanently\<close>, as the
  claim says, but it leaves \<^verbatim>\<open>running\<close> true: the session keeps its entry with the
  counters untouched and is never marked as failed.
\<close>

theorem permanent_close_keeps_running:
  "getSession (run (started @ [ConnectionUpdate 0 (conn_closed (Some 401))]) boot) ''k''
     = Some (session_k True 0 0) \<and>
   map timers (engines (run (started @ [ConnectionUpdate 0 (conn_closed (Some 401))]) boot)) = [0] \<and>
   sessionLogs (run (started @ [ConnectionUpdate 0 (conn_closed (Some 401))]) boot) ''k''
     = Some [''[09:00:00] [ERROR] Connection closed permanently'']"
  by code_simp

section \<open>Stopping a session\<close>

lemma stopHandler_succeeds:
  "getSession w k = Some s \<Longrightarrow> stopHandler k w = Inr (step (PostStop k) w)"
  by (simp add: stopHandler_def)

lemma settled_send_is_counted:
  assumes "i < length (tasks w)" and "t_pc (tasks w ! i) = Sending m rest"
    and "getSession w (t_key (tasks w ! i)) = Some s"
  shows "getSession (sendResolved i w) (t_key (tasks w ! i))
           = Some (s\<lparr>sentCount := sentCount s + 1, lastActivity := now w\<rparr>) \<and>
         getSession (sendRejected i msg w) (t_key (tasks w ! i))
           = Some (s\<lparr>failedCount := failedCount s + 1, lastActivity := now w\<rparr>)"
  using assms by (simp add: sendResolved_def sendRejected_def Let_def)

text \<open>
  C5, as the code has it. \<^verbatim>\<open>/stop\<close> has succeeded for a session and its key is not drawn
  again. Then in every later state the session is not running and no further
  \<^verbatim>\<open>sendMessage\<close> call has been made for it; and while the session is still in the map,
  \<^verbatim>\<open>running\<close> is false, neither counter has gone down, and the two counters together
  have grown by at most the number of the session's sends that were in flight at the
  stop. A send in flight whose session is in the map is counted when it settles,
  running or not: resolved, it adds one to \<^verbatim>\<open>sentCount\<close>; rejected, one to
  \<^verbatim>\<open>failedCount\<close>.
\<close>

theorem stop_limits_counting:
  assumes "getSession w k = Some s" and "\<forall>ev\<in>set evs. \<not> creates k ev"
  shows "\<not> isRunning (run evs (step (PostStop k) w)) k \<and>
         dequeued k (run evs (step (PostStop k) w)) = dequeued k w \<and>
         (\<forall>s'. getSession (run evs (step (PostStop k) w)) k = Some s' \<longrightarrow>
            \<not> running s' \<and> sentCount s \<le> sentCount s' \<and> failedCount s \<le> failedCount s' \<and>
            sentCount s' + failedCount s' \<le> sentCount s + failedCount s + inflight k w) \<and>
         (\<forall>w' i m rest s' msg.
            i < length (tasks w') \<and> t_pc (tasks w' ! i) = Sending m rest \<and>
            getSession w' (t_key (tasks w' ! i)) = Some s' \<longrightarrow>
              getSession (sendResolved i w') (t_key (tasks w' ! i))
                = Some (s'\<lparr>sentCount := sentCount s' + 1, lastActivity := now w'\<rparr>) \<and>
              getSession (sendRejected i msg w') (t_key (tasks w' ! i))
                = Some (s'\<lparr>failedCount := failedCount s' + 1, lastActivity := now w'\<rparr>))"
proof -
  let ?w' = "step (PostStop k) w"
  have stop: "stopHandler k w = Inr ?w'"
    using assms(1) by (rule stopHandler_succeeds)
  from assms(1) have s: "getSession ?w' k = Some (s\<lparr>running := False\<rparr>)"
    using stopHandler_readers(1) [OF stop] by auto
  then have "halted k (sentCount s + failedCount s + inflight k w) (dequeued k w) ?w'"
    using stopHandler_readers(3,4) [OF stop]
    by (simp add: halted_def isRunning_def counted_def inflight_def dequeued_def)
  then have h: "halted k (sentCount s + failedCount s + inflight k w) (dequeued k w) (run evs ?w')"
    using assms(2) by (rule halted_run)
  have l: "lineage k ?w' (run evs ?w')" using assms(2) by (rule run_lineage)
  have 1: "\<not> isRunning (run evs ?w') k" "dequeued k (run evs ?w') = dequeued k w"
    using h by (simp_all add: halted_def)
  have 2: "\<not> running s' \<and> sentCount s \<le> sentCount s' \<and> failedCount s \<le> failedCount s' \<and>
            sentCount s' + failedCount s' \<le> sentCount s + failedCount s + inflight k w"
    if g: "getSession (run evs ?w') k = Some s'" for s'
  proof -
    from l s g have "evolves (s\<lparr>running := False\<rparr>) s'" by (simp add: lineage_def)
    with h g show ?thesis
      by (simp add: halted_def isRunning_def counted_def evolves_def)
  qed
  from 1 2 settled_send_is_counted show ?thesis by blast
qed

text \<open>
  The theorem at work, and its bound reached: the session is stopped while its first
  send is in flight; the send is rejected and the cooldown passes. The session ends
  not running, with one failure counted, the one send that was in flight, and one
  send call.
\<close>

theorem stop_limits_counting_witness:
  "getSession (run first_in_flight boot) ''k'' = Some (session_k True 0 0) \<and>
   getSession (run [SendRejected 0 ''socket closed'', DelayElapsed 0]
      (step (PostStop ''k'') (run first_in_flight boot))) ''k'' = Some (session_k False 0 1) \<and>
   inflight ''k'' (run first_in_flight boot) = 1 \<and>
   dequeued ''k'' (run [SendRejected 0 ''socket closed'', DelayElapsed 0]
      (step (PostStop ''k'') (run first_in_flight boot))) = 1 \<and>
   \<not> isRunning (run [SendRejected 0 ''socket closed'', DelayElapsed 0]
      (step (PostStop ''k'') (run first_in_flight boot))) ''k''"
proof -
  have a: "getSession (run first_in_flight boot) ''k'' = Some (session_k True 0 0)"
    by code_simp
  have b: "getSession (run [SendRejected 0 ''socket closed'', DelayElapsed 0]
      (step (PostStop ''k'') (run first_in_flight boot))) ''k'' = Some (session_k False 0 1)"
    by code_simp
  have c: "inflight ''k'' (run first_in_flight boot) = 1"
    by code_simp
  have d: "dequeued ''k'' (run first_in_flight boot) = 1"
    by code_simp
  have e: "\<forall>ev\<in>set [SendRejected 0 ''socket closed'', DelayElapsed 0]. \<not> creates ''k'' ev"
    by (simp add: creates_def)
  note t = stop_limits_counting [OF a e]
  from t have f: "\<not> isRunning (run [SendRejected 0 ''socket closed'', DelayElapsed 0]
      (step (PostStop ''k'') (run first_in_flight boot))) ''k''"
    by (elim conjE)
  from t have g: "dequeued ''k'' (run [SendRejected 0 ''socket closed'', DelayElapsed 0]
      (step (PostStop ''k'') (run first_in_flight boot))) = dequeued ''k'' (run first_in_flight boot)"
    by (elim conjE)
  from a b c d f g show ?thesis by (simp del: step.simps run_Cons)
qed

text \<open>
  C5 as stated fails: the session is stopped while its first send is in flight, with
  both counters at 0; the send then resolves and \<^verbatim>\<open>sentCount\<close> becomes 1.
\<close>

theorem stop_then_send_is_counted:
  "getSession (step (PostStop ''k'') (run first_in_flight boot)) ''k'' = Some (session_k False 0 0) \<and>
   getSession (step (SendResolved 0) (step (PostStop ''k'') (run first_in_flight boot))) ''k''
     = Some (session_k False 1 0)"
  by code_simp

lemma stopHandler_effects:
  assumes "stopHandler k w = Inr w'"
  shows "ended w' = (case sessionConnections w k of None \<Rightarrow> ended w | Some sock \<Rightarrow> ended w @ [sock])"
    "clients w' i = map_option (notify k ''[SYSTEM] Session stopped by user'') (clients w i)"
    "now w' = now w" "localeTime w' = localeTime w"
  using assms
  by (auto simp add: stopHandler_def clients_broadcastLogs closeConnection_def removeDir_def
      setSession_def broadcastLogs_def split: option.splits)

text \<open>
  C9, as the code has it. A stop of a session that exists succeeds. It sets \<^verbatim>\<open>running\<close>
  to false and leaves the rest of the session's entry as it was, so the status request
  still finds it. It appends \<^verbatim>\<open>[SYSTEM] Session stopped by user\<close> to the session's log
  buffer by \<^verbatim>\<open>broadcastLogs\<close>, so the buffer is there afterwards, and the line is sent
  to every open client subscribed to the session and to no other client. It calls
  \<^verbatim>\<open>end\<close> on the session's connection, when it has one, and forgets it, and it asks
  for the session directory to be removed. The other sessions and their log buffers,
  the engines, the runs of the loop, the send calls and the clock are as before. The
  entry stays until a sweep: after any events without one, the status request still
  finds it.
\<close>

theorem stop_keeps_entry_and_logs:
  assumes "getSession w k = Some s"
  shows "stopHandler k w = Inr (step (PostStop k) w) \<and>
         getSession (step (PostStop k) w) k = Some (s\<lparr>running := False\<rparr>) \<and>
         statusHandler k (step (PostStop k) w) = Inr (s\<lparr>running := False\<rparr>) \<and>
         (\<forall>k'. k' \<noteq> k \<longrightarrow>
            getSession (step (PostStop k) w) k' = getSession w k' \<and>
            sessionLogs (step (PostStop k) w) k' = sessionLogs w k') \<and>
         sessionLogs (step (PostStop k) w) k
           = Some (pushLog (logLine (localeTime w) ''[SYSTEM] Session stopped by user'')
                     (case sessionLogs w k of None \<Rightarrow> [] | Some l \<Rightarrow> l)) \<and>
         (\<forall>i. clients (step (PostStop k) w) i
            = map_option (notify k ''[SYSTEM] Session stopped by user'') (clients w i)) \<and>
         sessionConnections (step (PostStop k) w) = (sessionConnections w)(k := None) \<and>
         ended (step (PostStop k) w)
           = (case sessionConnections w k of None \<Rightarrow> ended w | Some sock \<Rightarrow> ended w @ [sock]) \<and>
         rmCalls (step (PostStop k) w) = rmCalls w @ [k] \<and>
         engines (step (PostStop k) w) = engines w \<and>
         tasks (step (PostStop k) w) = tasks w \<and>
         sendCalls (step (PostStop k) w) = sendCalls w \<and>
         now (step (PostStop k) w) = now w \<and>
         localeTime (step (PostStop k) w) = localeTime w \<and>
         (\<forall>evs. SweepTimer \<notin> set evs \<longrightarrow>
            statusHandler k (run evs (step (PostStop k) w)) \<noteq> Inl NotFound404)"
proof -
  let ?w' = "step (PostStop k) w"
  have stop: "stopHandler k w = Inr ?w'"
    using assms by (rule stopHandler_succeeds)
  note r = stopHandler_readers [OF stop]
  note e = stopHandler_effects [OF stop]
  from r(1) assms have s': "getSession ?w' k = Some (s\<lparr>running := False\<rparr>)" by auto
  have "statusHandler k (run evs ?w') \<noteq> Inl NotFound404" if "SweepTimer \<notin> set evs" for evs
    using run_persists [OF that s'] by (auto simp add: statusHandler_def)
  with stop s' r(2-8) e show ?thesis
    by (auto simp add: statusHandler_def)
qed

text \<open>
  The theorem at work: the session of the scenario is stopped right after its start;
  its status is still served, with \<^verbatim>\<open>running\<close> false, also after the connection has
  opened; its log buffer holds the line of the stop; and \<^verbatim>\<open>end\<close> has been called on
  its socket 1.
\<close>

theorem stop_keeps_entry_and_logs_witness:
  "getSession (run started boot) ''k'' = Some (session_k True 0 0) \<and>
   statusHandler ''k'' (step (PostStop ''k'') (run started boot)) = Inr (session_k False 0 0) \<and>
   statusHandler ''k'' (run [ConnectionUpdate 0 conn_opened] (step (PostStop ''k'') (run started boot)))
     \<noteq> Inl NotFound404 \<and>
   sessionLogs (step (PostStop ''k'') (run started boot)) ''k''
     = Some [''[09:00:00] [SYSTEM] Session stopped by user''] \<and>
   ended (step (PostStop ''k'') (run started boot)) = [1]"
proof -
  have a: "getSession (run started boot) ''k'' = Some (session_k True 0 0)"
    by code_simp
  have d: "sessionConnections (run started boot) ''k'' = Some 1"
    by code_simp
  have b: "sessionLogs (run started boot) ''k'' = Some []" "localeTime (run started boot) = ''09:00:00''"
    by code_simp+
  have c: "SweepTimer \<notin> set [ConnectionUpdate 0 conn_opened]"
    by simp
  note t = stop_keeps_entry_and_logs [OF a]
  from t have "statusHandler ''k'' (step (PostStop ''k'') (run started boot))
      = Inr ((session_k True 0 0)\<lparr>running := False\<rparr>)"
    by (elim conjE)
  then have 1: "statusHandler ''k'' (step (PostStop ''k'') (run started boot))
      = Inr (session_k False 0 0)"
    by (simp add: session_k_def del: step.simps)
  from t have "\<forall>evs. SweepTimer \<notin> set evs \<longrightarrow>
      statusHandler ''k'' (run evs (step (PostStop ''k'') (run started boot))) \<noteq> Inl NotFound404"
    by (elim conjE)
  with c have 2: "statusHandler ''k''
      (run [ConnectionUpdate 0 conn_opened] (step (PostStop ''k'') (run started boot)))
      \<noteq> Inl NotFound404"
    by blast
  from t have "sessionLogs (step (PostStop ''k'') (run started boot)) ''k''
      = Some (pushLog (logLine (localeTime (run started boot)) ''[SYSTEM] Session stopped by user'')
                (case sessionLogs (run started boot) ''k'' of None \<Rightarrow> [] | Some l \<Rightarrow> l))"
    by (elim conjE)
  then have 3: "sessionLogs (step (PostStop ''k'') (run started boot)) ''k''
      = Some [''[09:00:00] [SYSTEM] Session stopped by user'']"
    by (simp add: b pushLog_def logLine_def del: step.simps)
  from t have "ended (step (PostStop ''k'') (run started boot))
      = (case sessionConnections (run started boot) ''k'' of
           None \<Rightarrow> ended (run started boot)
         | Some sock \<Rightarrow> ended (run started boot) @ [sock])"
    by (elim conjE)
  then have 4: "ended (step (PostStop ''k'') (run started boot)) = [1]"
    by (simp add: d ended_started del: step.simps)
  from a 1 2 3 4 show ?thesis by blast
qed

text \<open>
  C9 as stated fails: the stop also writes to the log buffer. The buffer of the
  scenario is empty before the stop and holds one line after it.
\<close>

theorem stop_appends_log_entry:
  "sessionLogs (run started boot) ''k'' = Some [] \<and>
   sessionLogs (step (PostStop ''k'') (run started boot)) ''k''
     = Some [''[09:00:00] [SYSTEM] Session stopped by user'']"
  by code_simp

section \<open>The counters\<close>

text \<open>
  C6. In every state the server can reach, the two counters of a session together do
  not exceed the number of \<^verbatim>\<open>sendMessage\<close> calls made for its key, the messages
  dequeued so far. And from any state on, as long as the key is not drawn again by
  \<^verbatim>\<open>/send\<close>, neither counter of the session ever goes down.
\<close>

theorem counters_bounded_monotone:
  "(getSession (run evs boot) k = Some s \<longrightarrow>
      sentCount s + failedCount s \<le> dequeued k (run evs boot)) \<and>
   ((\<forall>ev\<in>set evs'. \<not> creates k ev) \<and> getSession w k = Some s0 \<and>
      getSession (run evs' w) k = Some s1 \<longrightarrow>
      sentCount s0 \<le> sentCount s1 \<and> failedCount s0 \<le> failedCount s1)"
proof (intro conjI impI)
  assume "getSession (run evs boot) k = Some s"
  then show "sentCount s + failedCount s \<le> dequeued k (run evs boot)"
    using balanced_run [OF balanced_boot, of k evs]
    by (simp add: balanced_def counted_def)
next
  assume a: "(\<forall>ev\<in>set evs'. \<not> creates k ev) \<and> getSession w k = Some s0 \<and>
      getSession (run evs' w) k = Some s1"
  then have "lineage k w (run evs' w)" by (simp add: run_lineage)
  with a have "evolves s0 s1" by (simp add: lineage_def)
  then show "sentCount s0 \<le> sentCount s1" "failedCount s0 \<le> failedCount s1"
    by (simp_all add: evolves_def)
qed

text \<open>
  The theorem at work in the scenario of the three messages: when the third send has
  failed the counters are 2 and 1 and three messages have been dequeued; and from the
  first send in flight to that state neither counter has gone down.
\<close>

theorem counters_bounded_monotone_witness:
  "getSession (run third_fails boot) ''k'' = Some (session_k True 2 1) \<and>
   dequeued ''k'' (run third_fails boot) = 3 \<and>
   sentCount (session_k True 2 1) + failedCount (session_k True 2 1)
     \<le> dequeued ''k'' (run third_fails boot) \<and>
   getSession (run first_in_flight boot) ''k'' = Some (session_k True 0 0) \<and>
   sentCount (session_k True 0 0) \<le> sentCount (session_k True 2 1) \<and>
   failedCount (session_k True 0 0) \<le> failedCount (session_k True 2 1)"
proof -
  let ?rest = "[SendResolved 0, DelayElapsed 0, SendResolved 0, DelayElapsed 0,
      SendRejected 0 ''connection lost'']"
  have a: "getSession (run third_fails boot) ''k'' = Some (session_k True 2 1)"
    by code_simp
  have b: "getSession (run first_in_flight boot) ''k'' = Some (session_k True 0 0)"
    by code_simp
  have c: "dequeued ''k'' (run third_fails boot) = 3"
    by code_simp
  have d: "\<forall>ev\<in>set ?rest. \<not> creates ''k'' ev"
    by (simp add: creates_def)
  have e: "run ?rest (run first_in_flight boot) = run third_fails boot"
    by (simp add: third_fails_def run_append)
  from counters_bounded_monotone
    [of third_fails "''k''" "session_k True 2 1" ?rest "run first_in_flight boot"
      "session_k True 0 0" "session_k True 2 1"]
    a b c d e
  show ?thesis by simp
qed

section \<open>The log buffer\<close>

text \<open>
  C7. In every state the server can reach, no log buffer holds more than 500 entries.
  Appending to a buffer of 500 entries drops its oldest entry and puts the new line at
  the end; appending to a shorter buffer only puts the new line at the end.
\<close>

theorem log_buffer_bounded:
  "(sessionLogs (run evs boot) k = Some logs \<longrightarrow> length logs \<le> 500) \<and>
   (sessionLogs w k = Some logs' \<and> length logs' = 500 \<longrightarrow>
      sessionLogs (broadcastLogs k message w) k
        = Some (tl logs' @ [logLine (localeTime w) message])) \<and>
   (sessionLogs w k = Some logs' \<and> length logs' < 500 \<longrightarrow>
      sessionLogs (broadcastLogs k message w) k
        = Some (logs' @ [logLine (localeTime w) message]))"
proof (intro conjI impI)
  assume "sessionLogs (run evs boot) k = Some logs"
  then show "length logs \<le> 500"
    using logs_ok_run [OF logs_ok_boot, of evs] by (simp add: logs_ok_def)
next
  assume "sessionLogs w k = Some logs' \<and> length logs' = 500"
  then show "sessionLogs (broadcastLogs k message w) k
        = Some (tl logs' @ [logLine (localeTime w) message])"
    by (simp add: sessionLogs_broadcastLogs pushLog_full)
next
  assume "sessionLogs w k = Some logs' \<and> length logs' < 500"
  then show "sessionLogs (broadcastLogs k message w) k
        = Some (logs' @ [logLine (localeTime w) message])"
    by (simp add: sessionLogs_broadcastLogs pushLog_def)
qed

text \<open>
  The theorem at work: a buffer holds the 500 entries \<^verbatim>\<open>0\<close> to \<^verbatim>\<open>499\<close>; after one more
  line it holds \<^verbatim>\<open>1\<close> to \<^verbatim>\<open>499\<close> and the new line, again 500 entries.
\<close>

theorem log_buffer_bounded_witness:
  "sessionLogs full_buffer ''k'' = Some (map decimal [0..<500]) \<and>
   sessionLogs (broadcastLogs ''k'' ''m'' full_buffer) ''k''
     = Some (map decimal [1..<500] @ [''[] m'']) \<and>
   length (map decimal [1..<500] @ [''[] m'']) = 500"
proof -
  have a: "sessionLogs full_buffer ''k'' = Some (map decimal [0..<500])"
    by (simp add: full_buffer_def)
  have b: "localeTime full_buffer = []"
    by (simp add: full_buffer_def boot_def)
  have "[0..<500] = 0 # [1..<500]"
    by (simp add: upt_rec [of 0])
  then have c: "tl (map decimal [0..<500]) = map decimal [1..<500]"
    by simp
  from log_buffer_bounded [of "[]" "''k''" "[]" full_buffer "map decimal [0..<500]" "''m''"] a b c
  show ?thesis by (simp add: logLine_def)
qed

section \<open>The sweep\<close>

text \<open>
  C8. In every state the server can reach, the sweep removes the entry of a key exactly
  when its session is not running and its last activity is more than 3600000
  milliseconds before now; every other entry is kept as it is, so an entry with
  \<^verbatim>\<open>running\<close> true is kept whatever its age.
\<close>

theorem sweep_removes_stale_stopped:
  "getSession (sweep (run evs boot)) k =
     (case getSession (run evs boot) k of
        None \<Rightarrow> None
      | Some s \<Rightarrow>
          if \<not> running s \<and> now (run evs boot) - lastActivity s > 3600000 then None else Some s)"
  by (rule getSession_sweep) (rule keys_ok_run [OF keys_ok_boot])

text \<open>
  The theorem at work: two hours after midnight the running session \<^verbatim>\<open>a\<close> is kept and
  the stopped session \<^verbatim>\<open>b\<close> is removed; exactly one hour after midnight \<^verbatim>\<open>b\<close> is kept.
\<close>

theorem sweep_removes_stale_stopped_witness:
  "getSession (sweep (run (two_sessions @ [Tick 7200000 ''02:00:00'']) boot)) ''a''
     = Some (session_at_midnight True) \<and>
   getSession (sweep (run (two_sessions @ [Tick 7200000 ''02:00:00'']) boot)) ''b'' = None \<and>
   getSession (sweep (run (two_sessions @ [Tick 3600000 ''01:00:00'']) boot)) ''b''
     = Some (session_at_midnight False)"
proof -
  have a: "getSession (run (two_sessions @ [Tick 7200000 ''02:00:00'']) boot) ''a''
      = Some (session_at_midnight True)"
    "getSession (run (two_sessions @ [Tick 7200000 ''02:00:00'']) boot) ''b''
      = Some (session_at_midnight False)"
    "getSession (run (two_sessions @ [Tick 3600000 ''01:00:00'']) boot) ''b''
      = Some (session_at_midnight False)"
    "now (run (two_sessions @ [Tick 7200000 ''02:00:00'']) boot) = 7200000"
    "now (run (two_sessions @ [Tick 3600000 ''01:00:00'']) boot) = 3600000"
    by code_simp+
  show ?thesis
    using sweep_removes_stale_stopped [of "two_sessions @ [Tick 7200000 ''02:00:00'']" "''a''"]
      sweep_removes_stale_stopped [of "two_sessions @ [Tick 7200000 ''02:00:00'']" "''b''"]
      sweep_removes_stale_stopped [of "two_sessions @ [Tick 3600000 ''01:00:00'']" "''b''"]
    by (simp add: a session_at_midnight_def)
qed

section \<open>Subscribing without a log buffer\<close>

text \<open>
  C10, as the code has it. An observer sends a subscription for a key that has no log
  buffer. The handler changes nothing in the server: no frame is sent to the observer,
  so no backlog and no error either, and its \<^verbatim>\<open>sessionKey\<close> is not set. If the
  observer's \<^verbatim>\<open>sessionKey\<close> was not that key already, then whatever happens afterwards,
  until it subscribes to that key again, its \<^verbatim>\<open>sessionKey\<close> is never that key, and a
  line logged for that key leaves it as it is: no frame is sent to it.
\<close>

theorem subscribe_without_buffer:
  assumes "sessionLogs w key = None" and "clients w i = Some c"
  shows "onMessage i (Subscribe key) w = w \<and>
         (sessionKey c \<noteq> Some key \<longrightarrow>
           (\<forall>evs. (\<forall>ev\<in>set evs. ev \<noteq> WsMessage i (Subscribe key)) \<longrightarrow>
              (\<forall>c'. clients (run evs w) i = Some c' \<longrightarrow>
                 sessionKey c' \<noteq> Some key \<and>
                 (\<forall>message. clients (broadcastLogs key message (run evs w)) i = Some c'))))"
proof (intro conjI allI impI)
  show "onMessage i (Subscribe key) w = w"
    using assms by (simp add: onMessage_def subscribe_def)
next
  fix evs c'
  assume c: "sessionKey c \<noteq> Some key"
    and evs: "\<forall>ev\<in>set evs. ev \<noteq> WsMessage i (Subscribe key)"
    and c': "clients (run evs w) i = Some c'"
  have "unsubscribed i key w"
    using assms c by (simp add: unsubscribed_def)
  then have "unsubscribed i key (run evs w)"
    using evs by (rule unsubscribed_run)
  with c' show k: "sessionKey c' \<noteq> Some key"
    by (simp add: unsubscribed_def)
  fix message
  show "clients (broadcastLogs key message (run evs w)) i = Some c'"
    using c' k by (simp add: clients_broadcastLogs notify_def)
qed

text \<open>
  The theorem at work: observer 5 connects and subscribes to \<^verbatim>\<open>k\<close> before the session
  exists. Then the session is created, its connection opens and its first send
  succeeds: the observer has received no frame, and a further line for \<^verbatim>\<open>k\<close> does not
  reach it either.
\<close>

theorem subscribe_without_buffer_witness:
  "onMessage 5 (Subscribe ''k'') (run [WsConnect 5] boot) = run [WsConnect 5] boot \<and>
   clients (run (first_in_flight @ [SendResolved 0]) (run [WsConnect 5] boot)) 5 = Some fresh_client \<and>
   clients (broadcastLogs ''k'' ''more''
      (run (first_in_flight @ [SendResolved 0]) (run [WsConnect 5] boot))) 5 = Some fresh_client"
proof -
  have a: "sessionLogs (run [WsConnect 5] boot) ''k'' = None"
    "clients (run [WsConnect 5] boot) 5 = Some fresh_client"
    by code_simp+
  have a': "sessionKey fresh_client \<noteq> Some ''k''"
    by (simp add: fresh_client_def)
  have b: "clients (run (first_in_flight @ [SendResolved 0]) (run [WsConnect 5] boot)) 5
      = Some fresh_client"
    by code_simp
  have c: "\<forall>ev\<in>set (first_in_flight @ [SendResolved 0]). ev \<noteq> WsMessage 5 (Subscribe ''k'')"
    by (simp add: first_in_flight_def started_def)
  from subscribe_without_buffer [OF a] a' b c show ?thesis by blast
qed

text \<open>
  C10 as stated fails for an observer that was subscribed to the key before: its
  \<^verbatim>\<open>sessionKey\<close> is never cleared. Observer 5 subscribes to \<^verbatim>\<open>k\<close> while the session
  exists; the session is stopped and swept, so \<^verbatim>\<open>k\<close> has no log buffer. The observer
  subscribes to \<^verbatim>\<open>k\<close> again and gets nothing, its \<^verbatim>\<open>sessionKey\<close> still \<^verbatim>\<open>k\<close>. Then the
  connection of the session closes: the line logged for \<^verbatim>\<open>k\<close> is sent to the observer.
\<close>

theorem resubscribed_observer_still_served:
  "sessionLogs (run resubscribed boot) ''k'' = None \<and>
   map_option frames (clients (run resubscribed boot) 5)
     = Some [LogsFrame [], LogFrame ''[SYSTEM] Session stopped by user''] \<and>
   map_option frames (clients (run (resubscribed @ [WsMessage 5 (Subscribe ''k'')]) boot) 5)
     = Some [LogsFrame [], LogFrame ''[SYSTEM] Session stopped by user''] \<and>
   map_option sessionKey (clients (run (resubscribed @ [WsMessage 5 (Subscribe ''k'')]) boot) 5)
     = Some (Some ''k'') \<and>
   map_option frames
     (clients (run (resubscribed @
        [WsMessage 5 (Subscribe ''k''), ConnectionUpdate 0 (conn_closed None)]) boot) 5)
     = Some [LogsFrame [], LogFrame ''[SYSTEM] Session stopped by user'',
             LogFrame ''[ERROR] Connection closed permanently'']"
  by code_simp

end
